theory Spec2Isabelle
  imports Complex_Main "HOL-Library.Sublist"
begin

section \<open>Python strings\<close>

text \<open>
  A Python \<open>str\<close> is modelled as a \<^typ>\<open>string\<close>, a list of 8-bit characters. The
  character classes below are Python's on ASCII text (street addresses and shop names of
  a Kentucky spreadsheet); a character above 127 belongs to no class and has no case.
  So the model is the program on ASCII text only: Python counts the characters U+0085
  and U+00A0 as whitespace and the superscript digits U+00B2, U+00B3 and U+00B9 as
  digits, and changes the case of letters beyond ASCII.
\<close>

definition isspace :: "char \<Rightarrow> bool" where
  \<comment> \<open>\<open>str.isspace\<close> on ASCII: TAB, LF, VT, FF, CR, FS, GS, RS, US and the space.\<close>
  "isspace c = (let n = (of_char c :: nat) in (9 \<le> n \<and> n \<le> 13) \<or> (28 \<le> n \<and> n \<le> 32))"

definition isdigit :: "char \<Rightarrow> bool" where
  "isdigit c = (let n = (of_char c :: nat) in 48 \<le> n \<and> n \<le> 57)"

definition isupper_ascii :: "char \<Rightarrow> bool" where
  "isupper_ascii c = (let n = (of_char c :: nat) in 65 \<le> n \<and> n \<le> 90)"

definition islower_ascii :: "char \<Rightarrow> bool" where
  "islower_ascii c = (let n = (of_char c :: nat) in 97 \<le> n \<and> n \<le> 122)"

definition upper_char :: "char \<Rightarrow> char" where
  "upper_char c = (if islower_ascii c then char_of ((of_char c :: nat) - 32) else c)"

definition lower_char :: "char \<Rightarrow> char" where
  "lower_char c = (if isupper_ascii c then char_of ((of_char c :: nat) + 32) else c)"

definition upper :: "string \<Rightarrow> string" where
  \<comment> \<open>\<open>s.upper()\<close>\<close>
  "upper s = map upper_char s"

definition lower :: "string \<Rightarrow> string" where
  \<comment> \<open>\<open>s.lower()\<close>\<close>
  "lower s = map lower_char s"

definition py_strip :: "string \<Rightarrow> string" where
  \<comment> \<open>\<open>s.strip()\<close>: whitespace removed at both ends.\<close>
  "py_strip s = rev (dropWhile isspace (rev (dropWhile isspace s)))"

fun occurs_in :: "string \<Rightarrow> string \<Rightarrow> bool" where
  \<comment> \<open>\<open>p in s\<close>: \<open>p\<close> is a contiguous part of \<open>s\<close>.\<close>
  "occurs_in p [] = (p = [])"
| "occurs_in p (c # cs) = (prefix p (c # cs) \<or> occurs_in p cs)"

fun py_find :: "string \<Rightarrow> string \<Rightarrow> int" where
  \<comment> \<open>\<open>s.find(p)\<close>: the index of the first occurrence, \<open>-1\<close> when there is none.\<close>
  "py_find p [] = (if p = [] then 0 else - 1)"
| "py_find p (c # cs) =
     (if prefix p (c # cs) then 0
      else (let r = py_find p cs in if r < 0 then - 1 else r + 1))"

fun py_replace :: "string \<Rightarrow> string \<Rightarrow> string \<Rightarrow> string" where
  \<comment> \<open>\<open>s.replace(old, new)\<close>: every occurrence, left to right, without overlap; with an
      empty \<open>old\<close>, \<open>new\<close> goes before every character and at the end.\<close>
  "py_replace old new [] = (if old = [] then new else [])"
| "py_replace old new (c # cs) =
     (if old = [] then new @ c # py_replace old new cs
      else if prefix old (c # cs) then new @ py_replace old new (drop (length old - 1) cs)
      else c # py_replace old new cs)"

fun py_split :: "string \<Rightarrow> string \<Rightarrow> string list" where
  \<comment> \<open>\<open>s.split(sep)\<close> for a non-empty separator: the pieces between the occurrences of
      \<open>sep\<close>, found left to right without overlap. (Python raises on an empty separator;
      every call of the program passes a non-empty literal. Here the empty separator
      splits nothing.)\<close>
  "py_split sep [] = [[]]"
| "py_split sep (c # cs) =
     (if sep \<noteq> [] \<and> prefix sep (c # cs) then [] # py_split sep (drop (length sep - 1) cs)
      else (case py_split sep cs of
              [] \<Rightarrow> [[c]]
            | part # parts \<Rightarrow> (c # part) # parts))"

definition last_n :: "nat \<Rightarrow> string \<Rightarrow> string" where
  \<comment> \<open>\<open>s[-n:]\<close> for \<open>n > 0\<close>: the last \<open>n\<close> characters, all of \<open>s\<close> when it is shorter.\<close>
  "last_n n s = drop (length s - n) s"

fun show_nat :: "nat \<Rightarrow> string" where
  \<comment> \<open>\<open>str(n)\<close> of a non-negative integer: its decimal digits.\<close>
  "show_nat n =
     (if n < 10 then [char_of (48 + n)]
      else show_nat (n div 10) @ [char_of (48 + n mod 10)])"

declare show_nat.simps [simp del]

section \<open>The address normalizer: \<open>format_address\<close>\<close>

definition suite_patterns :: "(string \<times> string) list" where
  "suite_patterns =
     [(''Suite '', '', Suite ''),
      (''Ste '', '', Ste ''),
      (''STE '', '', STE ''),
      (''Unit '', '', Unit ''),
      (''UNIT '', '', UNIT ''),
      (''#'', '', #'')]"

definition add_suite_comma :: "string \<Rightarrow> string \<times> string \<Rightarrow> string" where
  \<comment> \<open>The body of the loop over \<open>suite_patterns\<close>: \<open>formatted\<close> after one pattern.\<close>
  "add_suite_comma formatted pr =
     (case pr of (pattern, replacement) \<Rightarrow>
        if occurs_in pattern formatted
           \<and> \<not> occurs_in ('', '' @ pattern) formatted
           \<and> \<not> occurs_in ('','' @ pattern) formatted
        then
          (let pos = py_find pattern formatted in
           if pos > 0 then
             (let char_before = formatted ! nat (pos - 1) in
              if char_before \<notin> {CHR '','', CHR '' ''} then
                take (nat pos) formatted @ replacement
                  @ drop (nat pos + length pattern) formatted
              else if char_before = CHR '' '' then
                take (nat (pos - 1)) formatted @ replacement
                  @ drop (nat pos + length pattern) formatted
              else formatted)
           else formatted)
        else formatted)"

definition add_state :: "string \<Rightarrow> string" where
  \<comment> \<open>"Add Kentucky if not present".\<close>
  "add_state formatted =
     (if \<not> occurs_in ''KY'' (upper formatted) \<and> \<not> occurs_in ''KENTUCKY'' (upper formatted)
      then formatted @ '', KY'' else formatted)"

definition add_county :: "string \<Rightarrow> string \<Rightarrow> string" where
  \<comment> \<open>"If no ZIP code and we have county info, try to add it".\<close>
  "add_county county formatted =
     (if \<not> list_ex isdigit (last_n 10 formatted) \<and> county \<noteq> [] then
        (if occurs_in '', KY'' formatted
         then py_replace '', KY'' ('', '' @ county @ '' County, KY'') formatted
         else formatted)
      else formatted)"

definition format_address :: "string \<Rightarrow> string \<Rightarrow> string" where
  \<comment> \<open>\<open>format_address(address, county="")\<close>\<close>
  "format_address address county =
     (if address = [] then []
      else add_county county (add_state (foldl add_suite_comma (py_strip address) suite_patterns)))"

section \<open>The record source: \<open>fetch_coffee_shops\<close>\<close>

text \<open>
  One entry of \<open>coffee_shops\<close>: the dictionary with the keys \<open>name\<close>, \<open>address\<close> (the
  formatted address), \<open>original_address\<close>, \<open>county\<close>, \<open>location_num\<close> and
  \<open>row_number\<close>. The fields carry the prefix \<open>shop_\<close>.
\<close>

record shop =
  shop_name :: string
  shop_address :: string
  shop_original_address :: string
  shop_county :: string
  shop_location_num :: nat
  shop_row_number :: nat

text \<open>
  The columns of one row of the sheet, as the loop body reads them. A row is the list of
  its cells; the readers of \<open>row[1]\<close>, \<open>row[2]\<close> and \<open>row[5]\<close> test the length first, the
  reader of \<open>row[0]\<close> runs only after the test \<open>len(row) < 3\<close> has let the row through.
\<close>

definition row_name :: "nat \<Rightarrow> string list \<Rightarrow> string" where
  "row_name i row = (if row ! 0 \<noteq> [] then py_strip (row ! 0) else ''Coffee Shop '' @ show_nat i)"

definition row_address1 :: "string list \<Rightarrow> string" where
  "row_address1 row = (if length row > 1 \<and> row ! 1 \<noteq> [] then py_strip (row ! 1) else [])"

definition row_address2 :: "string list \<Rightarrow> string" where
  "row_address2 row = (if length row > 2 \<and> row ! 2 \<noteq> [] then py_strip (row ! 2) else [])"

definition row_county :: "string list \<Rightarrow> string" where
  "row_county row = (if length row > 5 \<and> row ! 5 \<noteq> [] then py_strip (row ! 5) else [])"

definition mobile_keywords :: "string list" where
  "mobile_keywords = [''mobile'', ''truck'', ''cart'', ''trailer'']"

definition is_mobile :: "string \<Rightarrow> bool" where
  "is_mobile nm = list_ex (\<lambda>keyword. occurs_in keyword (lower nm)) mobile_keywords"

definition row_shops :: "nat \<Rightarrow> string list \<Rightarrow> shop list" where
  \<comment> \<open>What one pass of the loop body appends to \<open>coffee_shops\<close>, for the row \<open>row\<close>
      enumerated as \<open>i\<close>.\<close>
  "row_shops i row =
     (if length row < 3 then []
      else
        (let nm = row_name i row;
             address1 = row_address1 row;
             address2 = row_address2 row;
             cnty = row_county row
         in (if address1 \<noteq> [] then
               [\<lparr>shop_name = nm, shop_address = format_address address1 cnty,
                 shop_original_address = address1, shop_county = cnty,
                 shop_location_num = 1, shop_row_number = i + 1\<rparr>]
             else if is_mobile nm then []
             else
               [\<lparr>shop_name = nm, shop_address = [],
                 shop_original_address = [], shop_county = cnty,
                 shop_location_num = 1, shop_row_number = i + 1\<rparr>])
            @ (if address2 \<noteq> [] then
                 [\<lparr>shop_name = nm @ '' (Location 2)'', shop_address = format_address address2 cnty,
                   shop_original_address = address2, shop_county = cnty,
                   shop_location_num = 2, shop_row_number = i + 1\<rparr>]
               else [])))"

definition row_trucks :: "nat \<Rightarrow> string list \<Rightarrow> string list" where
  \<comment> \<open>What the same pass appends to \<open>mobile_trucks\<close>, the list that is printed and not
      returned.\<close>
  "row_trucks i row =
     (if length row < 3 then []
      else if row_address1 row = [] \<and> is_mobile (row_name i row) then [row_name i row]
      else [])"

definition ingest_row :: "shop list \<times> string list \<Rightarrow> nat \<times> string list \<Rightarrow> shop list \<times> string list" where
  \<comment> \<open>The loop body on the state \<open>(coffee_shops, mobile_trucks)\<close>.\<close>
  "ingest_row st ir =
     (case st of (coffee_shops, mobile_trucks) \<Rightarrow>
        case ir of (i, row) \<Rightarrow>
          (coffee_shops @ row_shops i row, mobile_trucks @ row_trucks i row))"

definition fetch_coffee_shops :: "string list list \<Rightarrow> shop list" where
  \<comment> \<open>\<open>fetch_coffee_shops\<close> from the parsed rows on (the download and \<open>csv.reader\<close> are
      outside the model): \<open>for i, row in enumerate(rows[1:], 1)\<close>.\<close>
  "fetch_coffee_shops rows =
     (if rows = [] then []
      else fst (foldl ingest_row ([], []) (List.enumerate 1 (tl rows))))"

section \<open>The two regular expressions of \<open>geocode_address\<close>\<close>

text \<open>
  Python's \<open>re\<close> is a backtracking matcher: a greedy quantifier tries its longest
  repetition first, an alternation its branches from left to right, and the first path
  that succeeds is the match. The two patterns of the program repeat character classes
  only, so a pattern is a sequence of the items below, and the matcher lists, in the
  order of the search, every remainder an item can leave.
\<close>

datatype char_class =
    Letter_or_space   \<comment> \<open>\<open>[A-Za-z\s]\<close>\<close>
  | Whitespace        \<comment> \<open>\<open>\s\<close>\<close>
  | Decimal           \<comment> \<open>\<open>\d\<close>\<close>
  | Alnum_or_dash     \<comment> \<open>\<open>[A-Za-z0-9\-]\<close>\<close>

fun in_class :: "char_class \<Rightarrow> char \<Rightarrow> bool" where
  "in_class Letter_or_space c = (isupper_ascii c \<or> islower_ascii c \<or> isspace c)"
| "in_class Whitespace c = isspace c"
| "in_class Decimal c = isdigit c"
| "in_class Alnum_or_dash c = (isupper_ascii c \<or> islower_ascii c \<or> isdigit c \<or> c = CHR ''-'')"

datatype rx =
    Lit string              \<comment> \<open>literal text\<close>
  | Opt char                \<comment> \<open>\<open>c?\<close>\<close>
  | Star char_class         \<comment> \<open>\<open>k*\<close>\<close>
  | Plus char_class         \<comment> \<open>\<open>k+\<close>\<close>
  | Times nat char_class    \<comment> \<open>\<open>k{n}\<close>\<close>
  | Alt "string list"       \<comment> \<open>\<open>(a|b|...)\<close> over literal branches\<close>

fun rx_rests :: "rx \<Rightarrow> string \<Rightarrow> string list" where
  "rx_rests (Lit l) s = (if prefix l s then [drop (length l) s] else [])"
| "rx_rests (Opt c) s = (case s of [] \<Rightarrow> [s] | x # xs \<Rightarrow> if x = c then [xs, s] else [s])"
| "rx_rests (Star k) s =
     map (\<lambda>n. drop n s) (rev [0..<Suc (length (takeWhile (in_class k) s))])"
| "rx_rests (Plus k) s =
     map (\<lambda>n. drop n s) (rev [1..<Suc (length (takeWhile (in_class k) s))])"
| "rx_rests (Times n k) s =
     (if n \<le> length (takeWhile (in_class k) s) then [drop n s] else [])"
| "rx_rests (Alt ls) s =
     concat (map (\<lambda>l. if prefix l s then [drop (length l) s] else []) ls)"

fun seq_rests :: "rx list \<Rightarrow> string \<Rightarrow> string list" where
  "seq_rests [] s = [s]"
| "seq_rests (r # rs) s = concat (map (seq_rests rs) (rx_rests r s))"

definition match_at :: "rx list \<Rightarrow> string \<Rightarrow> nat option" where
  \<comment> \<open>The length of the match that starts at the head of \<open>s\<close>, if there is one.\<close>
  "match_at rs s = (case seq_rests rs s of [] \<Rightarrow> None | rest # _ \<Rightarrow> Some (length s - length rest))"

fun re_search :: "rx list \<Rightarrow> string \<Rightarrow> string option" where
  \<comment> \<open>\<open>re.search(pattern, s)\<close>, as \<open>match.group()\<close>: the leftmost match.\<close>
  "re_search rs [] = (case match_at rs [] of None \<Rightarrow> None | Some n \<Rightarrow> Some [])"
| "re_search rs (c # cs) =
     (case match_at rs (c # cs) of None \<Rightarrow> re_search rs cs | Some n \<Rightarrow> Some (take n (c # cs)))"

fun re_remove :: "rx list \<Rightarrow> string \<Rightarrow> string" where
  \<comment> \<open>\<open>re.sub(pattern, '', s)\<close>: every match, left to right, is deleted.\<close>
  "re_remove rs [] = []"
| "re_remove rs (c # cs) =
     (case match_at rs (c # cs) of
        Some (Suc n) \<Rightarrow> re_remove rs (drop n cs)
      | _ \<Rightarrow> c # re_remove rs cs)"

definition city_state_zip :: "rx list" where
  \<comment> \<open>\<open>[A-Za-z\s]+,?\s*KY\s*\d{5}\<close>\<close>
  "city_state_zip =
     [Plus Letter_or_space, Opt CHR '','', Star Whitespace, Lit ''KY'', Star Whitespace,
      Times 5 Decimal]"

definition suite_fragment :: "rx list" where
  \<comment> \<open>\<open>,?\s*(Suite|Ste|STE|Unit|UNIT|#)\s*[A-Za-z0-9\-]+\<close>\<close>
  "suite_fragment =
     [Opt CHR '','', Star Whitespace,
      Alt [''Suite'', ''Ste'', ''STE'', ''Unit'', ''UNIT'', ''#''],
      Star Whitespace, Plus Alnum_or_dash]"

section \<open>The candidate generator of \<open>geocode_address\<close>\<close>

definition append_if_absent :: "string list \<Rightarrow> string \<Rightarrow> string list" where
  \<comment> \<open>\<open>if x not in address_attempts: address_attempts.append(x)\<close>\<close>
  "append_if_absent address_attempts x =
     (if x \<in> set address_attempts then address_attempts else address_attempts @ [x])"

definition geo_suite_patterns :: "string list" where
  \<comment> \<open>The list \<open>suite_patterns\<close> of \<open>geocode_address\<close>.\<close>
  "geo_suite_patterns =
     ['', Suite '', '', Ste '', '', STE '', '', Unit '', '', UNIT '', '', #'',
      '' Suite '', '' Ste '', '' STE '', '' Unit '', '' UNIT '', '' #'']"

definition suite_base_address :: "string \<Rightarrow> string \<Rightarrow> string" where
  \<comment> \<open>\<open>base_address\<close> for a pattern that occurs in the address: the text before the
      pattern, then the city, state and ZIP found after it.\<close>
  "suite_base_address addr pattern =
     (let parts = py_split pattern addr;
          base_address = parts ! 0
      in if length parts > 1 then
           (let after_suite = parts ! 1 in
            case re_search city_state_zip after_suite of
              Some city_match \<Rightarrow> base_address @ '', '' @ py_strip city_match
            | None \<Rightarrow>
                if occurs_in ''KY'' after_suite then base_address @ '', '' @ py_strip after_suite
                else base_address)
         else base_address)"

definition try_suite_pattern :: "string \<Rightarrow> string list \<Rightarrow> string \<Rightarrow> string list" where
  \<comment> \<open>The body of the loop over the suite patterns.\<close>
  "try_suite_pattern addr address_attempts pattern =
     (if occurs_in pattern addr
      then append_if_absent address_attempts (suite_base_address addr pattern)
      else address_attempts)"

definition try_no_suite :: "string \<Rightarrow> string list \<Rightarrow> string list" where
  "try_no_suite addr address_attempts =
     (let no_suite = re_remove suite_fragment addr
      in if no_suite \<noteq> addr \<and> no_suite \<notin> set address_attempts
         then address_attempts @ [no_suite] else address_attempts)"

definition street_abbrev_variations :: "(string \<times> string) list" where
  \<comment> \<open>The dictionary, in the order of its literal, which is the order of \<open>items()\<close>.\<close>
  "street_abbrev_variations =
     [('' Dr '', '' Drive ''), ('' Dr,'', '' Drive,''),
      ('' St '', '' Street ''), ('' St,'', '' Street,''),
      ('' Ave '', '' Avenue ''), ('' Ave,'', '' Avenue,''),
      ('' Rd '', '' Road ''), ('' Rd,'', '' Road,''),
      ('' Blvd '', '' Boulevard ''), ('' Blvd,'', '' Boulevard,''),
      ('' Cir '', '' Circle ''), ('' Cir,'', '' Circle,'')]"

definition try_abbrev :: "string \<Rightarrow> string list \<Rightarrow> string \<times> string \<Rightarrow> string list" where
  \<comment> \<open>The body of the loop over the abbreviations: \<open>if abbrev in address ... elif
      full_word in address ...\<close>.\<close>
  "try_abbrev addr address_attempts pr =
     (case pr of (abbrev, full_word) \<Rightarrow>
        if occurs_in abbrev addr
        then append_if_absent address_attempts (py_replace abbrev full_word addr)
        else if occurs_in full_word addr
        then append_if_absent address_attempts (py_replace full_word abbrev addr)
        else address_attempts)"

definition address_attempts :: "string \<Rightarrow> string list" where
  \<comment> \<open>The list \<open>address_attempts\<close> when the loop over the attempts starts.\<close>
  "address_attempts addr =
     foldl (try_abbrev addr)
       (try_no_suite addr (foldl (try_suite_pattern addr) [addr] geo_suite_patterns))
       street_abbrev_variations"

section \<open>The resolver: the attempts of \<open>geocode_address\<close>\<close>

text \<open>
  One match of the service's JSON answer: the fields \<open>display_name\<close>, \<open>lat\<close> and \<open>lon\<close>.
  A field is absent, holds text, or holds a value on which the operation the program
  applies raises for its type: for \<open>display_name\<close> any value that is no string (a
  \<open>null\<close>, on which \<open>.lower()\<close> raises \<open>AttributeError\<close>), for \<open>lat\<close> and \<open>lon\<close> a
  \<open>null\<close>, list or object (on which \<open>float\<close> raises \<open>TypeError\<close>); a JSON number in
  \<open>lat\<close> or \<open>lon\<close> is the text that \<open>float\<close> reads to the same value. What Python's
  \<open>float\<close> makes of a string is a parameter \<open>pf\<close> of the model: \<open>None\<close> where \<open>float\<close>
  raises \<open>ValueError\<close>.
\<close>

datatype field = Absent | Unusable | Text string

record geo_match =
  match_display_name :: field
  match_lat :: field
  match_lon :: field

text \<open>
  What one request comes to: an exception of the transport (\<open>requests.RequestException\<close>,
  which the HTTP status check raises too), a \<open>ValueError\<close> or \<open>KeyError\<close>, any other
  exception, or the decoded list of matches. A body that decodes to something else than
  a list of objects with text fields makes the code between \<open>try\<close> and \<open>except\<close>
  raise (or is empty), and is the corresponding \<open>Raises\<close> (or \<open>Json []\<close>) here. All
  three handlers print a message and go on with the next attempt.
\<close>

datatype fault = Request_exception | Value_or_key_error | Other_exception

datatype response = Raises fault | Json "geo_match list"

text \<open>The four ways an attempt ends without coordinates, one per message printed.\<close>

datatype attempt_failure = Network_error | Data_parsing_error | Unexpected_error | No_results

definition display_text :: "geo_match \<Rightarrow> string" where
  \<comment> \<open>\<open>r.get('display_name', '')\<close>, for a field that is absent or holds text.\<close>
  "display_text r = (case match_display_name r of Text d \<Rightarrow> d | _ \<Rightarrow> [])"

definition best_result :: "geo_match list \<Rightarrow> geo_match" where
  \<comment> \<open>\<open>ky_results[0] if ky_results else results[0]\<close>, for a non-empty \<open>results\<close> whose
      display names let the list comprehension finish.\<close>
  "best_result results =
     (let ky_results =
            filter (\<lambda>r. occurs_in ''kentucky'' (lower (display_text r))) results
      in if ky_results \<noteq> [] then hd ky_results else hd results)"

definition read_float :: "(string \<Rightarrow> 'f option) \<Rightarrow> field \<Rightarrow> attempt_failure + 'f" where
  \<comment> \<open>\<open>float(best_result[key])\<close>: \<open>KeyError\<close> on a missing key and \<open>ValueError\<close> on text
      that is no number are caught as a data parsing error, \<open>TypeError\<close> by the last
      handler.\<close>
  "read_float pf fld =
     (case fld of
        Absent \<Rightarrow> Inl Data_parsing_error
      | Unusable \<Rightarrow> Inl Unexpected_error
      | Text s \<Rightarrow> (case pf s of None \<Rightarrow> Inl Data_parsing_error | Some x \<Rightarrow> Inr x))"

definition attempt :: "(string \<Rightarrow> 'f option) \<Rightarrow> response \<Rightarrow> attempt_failure + 'f \<times> 'f" where
  \<comment> \<open>The body of the \<open>try\<close> statement for one answer of the service.\<close>
  "attempt pf resp =
     (case resp of
        Raises Request_exception \<Rightarrow> Inl Network_error
      | Raises Value_or_key_error \<Rightarrow> Inl Data_parsing_error
      | Raises Other_exception \<Rightarrow> Inl Unexpected_error
      | Json results \<Rightarrow>
          if results = [] then Inl No_results
          else if list_ex (\<lambda>r. match_display_name r = Unusable) results
          then Inl Unexpected_error
          else
            (case read_float pf (match_lat (best_result results)) of
               Inl e \<Rightarrow> Inl e
             | Inr lat \<Rightarrow>
                 (case read_float pf (match_lon (best_result results)) of
                    Inl e \<Rightarrow> Inl e
                  | Inr lon \<Rightarrow> Inr (lat, lon))))"

text \<open>
  The loop over the attempts. The service is a function of the number of requests sent
  before and of the query; the second component of the result lists the queries sent.
\<close>

fun try_attempts ::
  "(string \<Rightarrow> 'f option) \<Rightarrow> (nat \<Rightarrow> string \<Rightarrow> response) \<Rightarrow> nat \<Rightarrow> string list
     \<Rightarrow> ('f \<times> 'f) option \<times> string list" where
  "try_attempts pf svc k [] = (None, [])"
| "try_attempts pf svc k (attempt_address # rest) =
     (case attempt pf (svc k attempt_address) of
        Inr coordinates \<Rightarrow> (Some coordinates, [attempt_address])
      | Inl e \<Rightarrow>
          (case try_attempts pf svc (Suc k) rest of
             (result, sent) \<Rightarrow> (result, attempt_address # sent)))"

definition geocode_address ::
  "(string \<Rightarrow> 'f option) \<Rightarrow> (nat \<Rightarrow> string \<Rightarrow> response) \<Rightarrow> string \<Rightarrow> string
     \<Rightarrow> (string + 'f \<times> 'f) \<times> string list" where
  \<comment> \<open>\<open>geocode_address(address, original_address="")\<close>. The pair \<open>(None, message)\<close> is
      \<open>Inl message\<close>, the pair \<open>((lat, lon), None)\<close> is \<open>Inr (lat, lon)\<close>.\<close>
  "geocode_address pf svc addr original =
     (if addr = [] then (Inl ''No address provided'', [])
      else
        (case try_attempts pf svc 0 (address_attempts addr) of
           (Some coordinates, sent) \<Rightarrow> (Inr coordinates, sent)
         | (None, sent) \<Rightarrow>
             (Inl (''All '' @ show_nat (length (address_attempts addr))
                   @ '' geocoding attempts failed for: ''
                   @ (if original \<noteq> [] then original else addr)),
              sent)))"

section \<open>The override table and the loop of \<open>add_coffee_shop_markers\<close>\<close>

definition manual_coordinates :: "string \<rightharpoonup> real \<times> real" where
  \<comment> \<open>The dictionary literal of the function. Coordinates are real numbers here: the
      program stores and prints them and computes nothing with them.\<close>
  "manual_coordinates =
     [''121 Bethel Harvest Dr Nicholasville, KY 40356'' \<mapsto> (37.8814, - 84.5730)]"

record failure =
  failure_name :: string
  failure_original_address :: string
  failure_formatted_address :: string
  failure_error :: string
  failure_row :: nat

text \<open>
  The state of the loop over the shops: the markers put on the map (name and
  coordinates), the three counters and lists of the function, and every query sent to the
  service so far.
\<close>

record marking =
  markers :: "(string \<times> real \<times> real) list"
  successful_markers :: nat
  manual_overrides_used :: nat
  failed_geocoding :: "failure list"
  requests :: "string list"

definition mark_shop ::
  "(string \<Rightarrow> real option) \<Rightarrow> (nat \<Rightarrow> string \<Rightarrow> response) \<Rightarrow> marking \<Rightarrow> shop \<Rightarrow> marking" where
  \<comment> \<open>The body of the loop, for one shop.\<close>
  "mark_shop pf svc st shp =
     (let original_address = shop_original_address shp;
          formatted_address = shop_address shp
      in if formatted_address = [] then st
         else
           (case manual_coordinates formatted_address of
              Some coordinates \<Rightarrow>
                st\<lparr>markers := markers st @ [(shop_name shp, coordinates)],
                   successful_markers := successful_markers st + 1,
                   manual_overrides_used := manual_overrides_used st + 1\<rparr>
            | None \<Rightarrow>
                (case geocode_address pf (\<lambda>k. svc (length (requests st) + k))
                        formatted_address original_address of
                   (Inr coordinates, sent) \<Rightarrow>
                     st\<lparr>markers := markers st @ [(shop_name shp, coordinates)],
                        successful_markers := successful_markers st + 1,
                        requests := requests st @ sent\<rparr>
                 | (Inl error, sent) \<Rightarrow>
                     st\<lparr>failed_geocoding := failed_geocoding st @
                          [\<lparr>failure_name = shop_name shp,
                            failure_original_address = original_address,
                            failure_formatted_address = formatted_address,
                            failure_error = error,
                            failure_row = shop_row_number shp\<rparr>],
                        requests := requests st @ sent\<rparr>)))"

definition initial_marking :: marking where
  \<comment> \<open>The state in which the loop of \<open>add_coffee_shop_markers\<close> starts.\<close>
  "initial_marking =
     \<lparr>markers = [], successful_markers = 0, manual_overrides_used = 0,
      failed_geocoding = [], requests = []\<rparr>"

definition add_coffee_shop_markers ::
  "(string \<Rightarrow> real option) \<Rightarrow> (nat \<Rightarrow> string \<Rightarrow> response) \<Rightarrow> shop list \<Rightarrow> marking" where
  \<comment> \<open>The loop over the shops; the function returns \<open>successful_markers\<close> of this state.\<close>
  "add_coffee_shop_markers pf svc coffee_shops =
     foldl (mark_shop pf svc) initial_marking coffee_shops"

section \<open>The candidate list as a sequence of strings\<close>

text \<open>
  The specification describes the candidate list as the strings the strategies produce,
  in their fixed order, deduplicated with the first occurrence kept and the canonical
  address first. \<open>first_seen\<close> follows those words; \<open>candidate_strings\<close> lists
  the strings the three loops of the source compute, before any test for duplicates
  (\<open>abbrev_variation\<close> is the either-or of the last loop). The theorems below
  compare them with \<open>address_attempts\<close>.
\<close>

definition first_seen :: "'a list \<Rightarrow> 'a list" where
  \<comment> \<open>Every element once, at the place of its first occurrence.\<close>
  "first_seen xs = rev (remdups (rev xs))"

definition abbrev_variation :: "string \<Rightarrow> string \<times> string \<Rightarrow> string list" where
  \<comment> \<open>The candidate one entry of the abbreviation table contributes, if any.\<close>
  "abbrev_variation addr pr =
     (case pr of (abbrev, full_word) \<Rightarrow>
        if occurs_in abbrev addr then [py_replace abbrev full_word addr]
        else if occurs_in full_word addr then [py_replace full_word abbrev addr]
        else [])"

definition candidate_strings :: "string \<Rightarrow> string list" where
  \<comment> \<open>Suite-split-with-tail, then suite-strip, then the abbreviations.\<close>
  "candidate_strings addr =
     map (suite_base_address addr) (filter (\<lambda>pattern. occurs_in pattern addr) geo_suite_patterns)
     @ [re_remove suite_fragment addr]
     @ concat (map (abbrev_variation addr) street_abbrev_variations)"

definition suite_settled :: "string \<Rightarrow> bool" where
  \<comment> \<open>Every pattern of \<open>format_address\<close> is absent from \<open>s\<close>, or occurs in it behind a
      comma, or stands at its very start.\<close>
  "suite_settled s =
     list_all (\<lambda>pr. \<not> occurs_in (fst pr) s
                     \<or> occurs_in ('', '' @ fst pr) s \<or> occurs_in ('','' @ fst pr) s
                     \<or> prefix (fst pr) s)
              suite_patterns"

definition county_settled :: "string \<Rightarrow> string \<Rightarrow> bool" where
  \<comment> \<open>No county is given, or one of the last 10 characters of \<open>s\<close> is a digit, or \<open>s\<close>
      has no \<open>", KY"\<close>.\<close>
  "county_settled c s =
     (c = [] \<or> list_ex isdigit (last_n 10 s) \<or> \<not> occurs_in '', KY'' s)"

definition trimmed :: "string \<Rightarrow> bool" where
  \<comment> \<open>No whitespace at either end: what \<open>strip\<close> leaves unchanged.\<close>
  "trimmed s = (s = [] \<or> (\<not> isspace (hd s) \<and> \<not> isspace (last s)))"

section \<open>Sample inputs\<close>

text \<open>
  A float reader that knows the coordinates used below, and four services: one that is
  never reached, one that finds nothing, one that answers only the query with
  \<open>Street\<close> spelled out (a Virginia match first, the Kentucky match second), and one
  whose match carries a latitude that is no number.
\<close>

definition sample_float :: "string \<Rightarrow> real option" where
  "sample_float s =
     (if s = ''38.0464'' then Some 38.0464
      else if s = ''-84.4970'' then Some (- 84.4970)
      else if s = ''37.7840'' then Some 37.7840
      else if s = ''-79.4428'' then Some (- 79.4428)
      else None)"

definition unreachable_service :: "nat \<Rightarrow> string \<Rightarrow> response" where
  "unreachable_service k q = Raises Request_exception"

definition no_match_service :: "nat \<Rightarrow> string \<Rightarrow> response" where
  "no_match_service k q = Json []"

definition street_only_service :: "nat \<Rightarrow> string \<Rightarrow> response" where
  "street_only_service k q =
     (if q = ''500 W Main Street, Lexington, KY 40507'' then
        Json [\<lparr>match_display_name = Text ''West Main Street, Lexington, Virginia, United States'',
                match_lat = Text ''37.7840'', match_lon = Text ''-79.4428''\<rparr>,
              \<lparr>match_display_name =
                  Text ''500, West Main Street, Lexington, Fayette County, Kentucky, 40507, United States'',
                match_lat = Text ''38.0464'', match_lon = Text ''-84.4970''\<rparr>]
      else Json [])"

definition malformed_service :: "nat \<Rightarrow> string \<Rightarrow> response" where
  "malformed_service k q =
     Json [\<lparr>match_display_name = Text ''Lexington, Fayette County, Kentucky, United States'',
             match_lat = Text ''n/a'', match_lon = Text ''-84.4970''\<rparr>]"

definition null_name_service :: "nat \<Rightarrow> string \<Rightarrow> response" where
  \<comment> \<open>A first match whose display name is \<open>null\<close>, then a match in good order.\<close>
  "null_name_service k q =
     Json [\<lparr>match_display_name = Unusable,
             match_lat = Text ''37.7840'', match_lon = Text ''-79.4428''\<rparr>,
           \<lparr>match_display_name =
               Text ''500, West Main Street, Lexington, Fayette County, Kentucky, 40507, United States'',
             match_lat = Text ''38.0464'', match_lon = Text ''-84.4970''\<rparr>]"

definition sheet_header :: "string list" where
  "sheet_header = [''Name'', ''Address'', ''Second Address'', ''Phone'', ''Website'', ''County'']"

section \<open>Properties of the record source\<close>

lemma foldl_ingest_row:
  "foldl ingest_row (cs, ts) irs =
     (cs @ concat (map (\<lambda>(i, row). row_shops i row) irs),
      ts @ concat (map (\<lambda>(i, row). row_trucks i row) irs))"
  by (induction irs arbitrary: cs ts) (auto simp: ingest_row_def split: prod.splits)

lemma fetch_coffee_shops_rows:
  "fetch_coffee_shops (header # rows) =
     concat (map (\<lambda>(i, row). row_shops i row) (List.enumerate 1 rows))"
  by (simp add: fetch_coffee_shops_def foldl_ingest_row)

lemma set_enumerate_from_1:
  "set (List.enumerate 1 rows) = (\<lambda>k. (k + 1, rows ! k)) ` {..<length rows}"
proof (rule set_eqI)
  fix p :: "nat \<times> 'a"
  show "p \<in> set (List.enumerate 1 rows) \<longleftrightarrow> p \<in> (\<lambda>k. (k + 1, rows ! k)) ` {..<length rows}"
  proof
    assume "p \<in> set (List.enumerate 1 rows)"
    then have "1 \<le> fst p" "fst p < length rows + 1" "rows ! (fst p - 1) = snd p"
      by (simp_all add: in_set_enumerate_eq)
    then have "p = (fst p - 1 + 1, rows ! (fst p - 1))" "fst p - 1 < length rows"
      by (simp_all add: prod_eq_iff)
    then show "p \<in> (\<lambda>k. (k + 1, rows ! k)) ` {..<length rows}"
      by blast
  next
    assume "p \<in> (\<lambda>k. (k + 1, rows ! k)) ` {..<length rows}"
    then show "p \<in> set (List.enumerate 1 rows)"
      by (auto simp: in_set_enumerate_eq)
  qed
qed

lemma set_fetch_coffee_shops:
  "set (fetch_coffee_shops (header # rows)) =
     (\<Union>k<length rows. set (row_shops (k + 1) (rows ! k)))"
  using set_enumerate_from_1 [of rows] by (simp add: fetch_coffee_shops_rows)

lemma row_shops_row_number:
  "r \<in> set (row_shops p row) \<Longrightarrow> shop_row_number r = p + 1"
  by (auto simp: row_shops_def Let_def split: if_splits)

lemma py_strip_Nil: "py_strip [] = []"
  by (simp add: py_strip_def)

text \<open>
  C8 (the claim as written fails): a row without a first address whose name has a mobile
  keyword yields no record at all, its name goes to the list \<open>mobile_trucks\<close>; and a row
  whose first address is empty and whose second is not yields two records, though only
  one of its address columns is filled.
\<close>

theorem mobile_row_counterexample:
  "3 \<le> length [''Bluegrass Coffee Truck'', [], []]
   \<and> fetch_coffee_shops [sheet_header, [''Bluegrass Coffee Truck'', [], []]] = []
   \<and> row_address1 [''Corner Cafe'', [], ''2 Oak St''] = []
   \<and> length (fetch_coffee_shops [sheet_header, [''Corner Cafe'', [], ''2 Oak St'']]) = 2"
  by code_simp

text \<open>
  C8 (amended): a row with at least 3 columns yields one record for its first location
  unless its first address is empty and its name has a mobile keyword (then the name is
  put on \<open>mobile_trucks\<close> and no record is made for that location), and one more record
  when its second address is not empty; so it yields 0, 1 or 2 records, and an
  addressless row without a mobile keyword still yields one.
\<close>

theorem row_shops_count:
  assumes "3 \<le> length row"
  shows "length (row_shops i row) =
           (if row_address1 row = [] \<and> is_mobile (row_name i row) then 0 else 1)
           + (if row_address2 row = [] then 0 else 1)
         \<and> row_trucks i row =
           (if row_address1 row = [] \<and> is_mobile (row_name i row) then [row_name i row] else [])"
  using assms by (simp add: row_shops_def row_trucks_def Let_def)

theorem row_shops_count_witness:
  "3 \<le> length [''Bluegrass Coffee Truck'', [], []]
   \<and> length (row_shops 1 [''Bluegrass Coffee Truck'', [], []]) = 0
   \<and> row_trucks 1 [''Bluegrass Coffee Truck'', [], []] = [''Bluegrass Coffee Truck'']"
proof -
  have len: "3 \<le> length [''Bluegrass Coffee Truck'', [], []]"
    by simp
  have "row_address1 [''Bluegrass Coffee Truck'', [], []] = []"
    and "row_address2 [''Bluegrass Coffee Truck'', [], []] = []"
    and "row_name 1 [''Bluegrass Coffee Truck'', [], []] = ''Bluegrass Coffee Truck''"
    and "is_mobile ''Bluegrass Coffee Truck''"
    by code_simp+
  with row_shops_count [OF len, of 1] show ?thesis
    by simp
qed

text \<open>
  C9 (the claim as written fails): the county is read from \<open>row[5]\<close>, the sixth column,
  after two unused columns; a seventh column is never read.
\<close>

theorem county_column_counterexample:
  "map shop_county
     (fetch_coffee_shops
        [sheet_header @ [''Notes''],
         [''Corner Cafe'', ''1 Main St'', [], ''555-0100'', ''cafe.example'', ''Fayette'', ''Clark'']])
   = [''Fayette'']"
  by code_simp

text \<open>
  C9 (amended): the columns are name, address-1, address-2, two unused columns, then the
  county (the sixth column, read only when the row has it); row 0 is discarded as a
  header, the data rows are enumerated from 1, and a row with fewer than 3 columns
  produces no record.
\<close>

theorem columns_of_a_row:
  "fetch_coffee_shops (header # rows) =
     concat (map (\<lambda>(i, row). row_shops i row) (List.enumerate 1 rows))
   \<and> (length row < 3 \<longrightarrow> row_shops i row = [])
   \<and> (3 \<le> length row \<and> r \<in> set (row_shops i row) \<longrightarrow>
        shop_county r = (if 5 < length row then py_strip (row ! 5) else [])
        \<and> shop_location_num r \<in> {1, 2}
        \<and> shop_original_address r = py_strip (row ! shop_location_num r)
        \<and> shop_name r =
            (if row ! 0 \<noteq> [] then py_strip (row ! 0) else ''Coffee Shop '' @ show_nat i)
            @ (if shop_location_num r = 2 then '' (Location 2)'' else []))"
proof -
  have "length row < 3 \<longrightarrow> row_shops i row = []"
    by (simp add: row_shops_def)
  moreover have "3 \<le> length row \<and> r \<in> set (row_shops i row) \<longrightarrow>
        shop_county r = (if 5 < length row then py_strip (row ! 5) else [])
        \<and> shop_location_num r \<in> {1, 2}
        \<and> shop_original_address r = py_strip (row ! shop_location_num r)
        \<and> shop_name r =
            (if row ! 0 \<noteq> [] then py_strip (row ! 0) else ''Coffee Shop '' @ show_nat i)
            @ (if shop_location_num r = 2 then '' (Location 2)'' else [])"
    by (auto simp: row_shops_def Let_def row_county_def row_address1_def row_address2_def
        row_name_def py_strip_Nil split: if_splits)
  ultimately show ?thesis
    using fetch_coffee_shops_rows by blast
qed

theorem columns_of_a_row_witness:
  "\<lparr>shop_name = ''Corner Cafe'', shop_address = ''1 Main St, Fayette County, KY'',
     shop_original_address = ''1 Main St'', shop_county = ''Fayette'',
     shop_location_num = 1, shop_row_number = 2\<rparr>
     \<in> set (row_shops 1 [''Corner Cafe'', '' 1 Main St'', [], ''555-0100'', ''cafe.example'', ''Fayette '', ''Clark''])
   \<and> shop_county \<lparr>shop_name = ''Corner Cafe'', shop_address = ''1 Main St, Fayette County, KY'',
     shop_original_address = ''1 Main St'', shop_county = ''Fayette'',
     shop_location_num = 1, shop_row_number = 2\<rparr>
       = py_strip ([''Corner Cafe'', '' 1 Main St'', [], ''555-0100'', ''cafe.example'', ''Fayette '', ''Clark''] ! 5)
   \<and> row_shops 7 [''Corner Cafe'', ''1 Main St''] = []"
proof -
  let ?row = "[''Corner Cafe'', '' 1 Main St'', [], ''555-0100'', ''cafe.example'', ''Fayette '', ''Clark'']"
  let ?r = "\<lparr>shop_name = ''Corner Cafe'', shop_address = ''1 Main St, Fayette County, KY'',
     shop_original_address = ''1 Main St'', shop_county = ''Fayette'',
     shop_location_num = 1, shop_row_number = 2\<rparr>"
  have mem: "?r \<in> set (row_shops 1 ?row)"
    by code_simp
  have "3 \<le> length ?row" and "5 < length ?row" and "length [''Corner Cafe'', ''1 Main St''] < 3"
    by simp_all
  with mem columns_of_a_row [of sheet_header "[]" ?row 1 ?r]
    columns_of_a_row [of sheet_header "[]" "[''Corner Cafe'', ''1 Main St'']" 7 ?r]
  show ?thesis
    by simp
qed

section \<open>Properties of the candidate generator\<close>

lemma remdups_skip_known: "x \<in> set zs \<Longrightarrow> remdups (ys @ x # zs) = remdups (ys @ zs)"
  by (induction ys) auto

lemma foldl_append_if_absent:
  "distinct acc \<Longrightarrow> foldl append_if_absent acc xs = first_seen (acc @ xs)"
proof (induction xs arbitrary: acc)
  case Nil
  then show ?case by (simp add: first_seen_def distinct_remdups_id)
next
  case (Cons x xs)
  show ?case
  proof (cases "x \<in> set acc")
    case True
    then have "append_if_absent acc x = acc"
      by (simp add: append_if_absent_def)
    then have "foldl append_if_absent acc (x # xs) = foldl append_if_absent acc xs"
      by simp
    also have "\<dots> = first_seen (acc @ xs)"
      using Cons.prems by (rule Cons.IH)
    also have "\<dots> = first_seen (acc @ x # xs)"
      using True by (simp add: first_seen_def remdups_skip_known)
    finally show ?thesis .
  next
    case False
    then have step: "append_if_absent acc x = acc @ [x]"
      by (simp add: append_if_absent_def)
    have "distinct (acc @ [x])"
      using False Cons.prems by simp
    from Cons.IH [OF this] step show ?thesis
      by simp
  qed
qed

lemma foldl_try_suite_pattern:
  "foldl (try_suite_pattern addr) acc ps =
     foldl append_if_absent acc
       (map (suite_base_address addr) (filter (\<lambda>p. occurs_in p addr) ps))"
  by (induction ps arbitrary: acc) (simp_all add: try_suite_pattern_def)

lemma foldl_try_abbrev:
  "foldl (try_abbrev addr) acc prs =
     foldl append_if_absent acc (concat (map (abbrev_variation addr) prs))"
  by (induction prs arbitrary: acc) (auto simp: try_abbrev_def abbrev_variation_def)

lemma set_foldl_append_if_absent:
  "set (foldl append_if_absent acc xs) = set acc \<union> set xs"
  by (induction xs arbitrary: acc) (auto simp: append_if_absent_def)

lemma try_no_suite_append:
  "addr \<in> set acc \<Longrightarrow>
     try_no_suite addr acc = append_if_absent acc (re_remove suite_fragment addr)"
  by (auto simp: try_no_suite_def append_if_absent_def Let_def)

lemma address_attempts_foldl:
  "address_attempts addr = foldl append_if_absent [addr] (candidate_strings addr)"
proof -
  let ?suite =
    "map (suite_base_address addr) (filter (\<lambda>p. occurs_in p addr) geo_suite_patterns)"
  have "addr \<in> set (foldl append_if_absent [addr] ?suite)"
    by (simp add: set_foldl_append_if_absent)
  then show ?thesis
    by (simp add: address_attempts_def candidate_strings_def foldl_try_suite_pattern
        foldl_try_abbrev try_no_suite_append)
qed

lemma address_attempts_first_seen:
  "address_attempts addr = first_seen (addr # candidate_strings addr)"
  using foldl_append_if_absent [of "[addr]" "candidate_strings addr"]
  by (simp add: address_attempts_foldl)

lemma first_seen_Cons: "first_seen (x # xs) = x # first_seen (removeAll x xs)"
proof -
  have r: "remdups (ys @ [x]) = remdups (removeAll x ys) @ [x]" for ys
    by (induction ys) auto
  have "rev (removeAll x xs) = removeAll x (rev xs)"
    by (simp add: removeAll_filter_not_eq rev_filter)
  then show ?thesis
    by (simp add: first_seen_def r)
qed

lemma distinct_first_seen: "distinct (first_seen xs)"
  by (simp add: first_seen_def)

lemma set_first_seen: "set (first_seen xs) = set xs"
  by (simp add: first_seen_def)

lemma set_address_attempts:
  "set (address_attempts addr) =
     {addr}
     \<union> suite_base_address addr ` {pattern \<in> set geo_suite_patterns. occurs_in pattern addr}
     \<union> {re_remove suite_fragment addr}
     \<union> (\<Union>pr \<in> set street_abbrev_variations. set (abbrev_variation addr pr))"
  by (auto simp: address_attempts_first_seen set_first_seen candidate_strings_def)

lemma attempts_main_street:
  "address_attempts ''500 W Main St, Lexington, KY 40507'' =
     [''500 W Main St, Lexington, KY 40507'', ''500 W Main Street, Lexington, KY 40507'']"
  by code_simp

lemma attempts_buena_vista:
  "address_attempts ''2100 Buena Vista Rd, Suite 1 Lexington KY 40505'' =
     [''2100 Buena Vista Rd, Suite 1 Lexington KY 40505'',
      ''2100 Buena Vista Rd, Lexington KY 40505'',
      ''2100 Buena Vista Rd,, Lexington KY 40505'',
      ''2100 Buena Vista Rd Lexington KY 40505'',
      ''2100 Buena Vista Road, Suite 1 Lexington KY 40505'']"
  by code_simp

text \<open>
  C4: for every canonical address (the empty one included, which \<open>geocode_address\<close>
  turns away before it builds the list) the candidate list has at least one element, its
  element 0 is the address itself, and its elements are pairwise distinct; it is the
  sequence of the strings the strategies produce, after the address, with every string
  kept at its first occurrence only.
\<close>

theorem address_attempts_invariant:
  "1 \<le> length (address_attempts addr)
   \<and> address_attempts addr ! 0 = addr
   \<and> distinct (address_attempts addr)
   \<and> address_attempts addr = first_seen (addr # candidate_strings addr)"
  by (simp add: address_attempts_first_seen first_seen_Cons distinct_first_seen set_first_seen)

theorem address_attempts_invariant_witness:
  "1 \<le> length (address_attempts ''2100 Buena Vista Rd, Suite 1 Lexington KY 40505'')
   \<and> address_attempts ''2100 Buena Vista Rd, Suite 1 Lexington KY 40505'' ! 0
       = ''2100 Buena Vista Rd, Suite 1 Lexington KY 40505''
   \<and> distinct (address_attempts ''2100 Buena Vista Rd, Suite 1 Lexington KY 40505'')
   \<and> length (address_attempts ''2100 Buena Vista Rd, Suite 1 Lexington KY 40505'') = 5"
proof -
  let ?addr = "''2100 Buena Vista Rd, Suite 1 Lexington KY 40505''"
  from address_attempts_invariant [of ?addr]
  have "1 \<le> length (address_attempts ?addr) \<and> address_attempts ?addr ! 0 = ?addr
        \<and> distinct (address_attempts ?addr)"
    by blast
  moreover have "length (address_attempts ?addr) = 5"
    by (simp add: attempts_buena_vista)
  ultimately show ?thesis
    by blast
qed

text \<open>
  C6 (the claim as written fails): the two directions are not independent. The loop body
  is \<open>if abbrev in address ... elif full_word in address ...\<close>, so for one entry of the
  table (one abbreviation with one delimiter) the contracted candidate is made only when
  the abbreviated form is absent. This canonical address has both \<open>" Dr "\<close> and
  \<open>" Drive "\<close>; its list holds the expanded candidate and not the contracted one.
\<close>

theorem both_forms_counterexample:
  "format_address ''9 Lake Dr Drive Thru, Lexington, KY 40507'' ''Fayette''
     = ''9 Lake Dr Drive Thru, Lexington, KY 40507''
   \<and> occurs_in '' Dr '' ''9 Lake Dr Drive Thru, Lexington, KY 40507''
   \<and> occurs_in '' Drive '' ''9 Lake Dr Drive Thru, Lexington, KY 40507''
   \<and> py_replace '' Drive '' '' Dr '' ''9 Lake Dr Drive Thru, Lexington, KY 40507''
       = ''9 Lake Dr Dr Thru, Lexington, KY 40507''
   \<and> ''9 Lake Dr Dr Thru, Lexington, KY 40507''
       \<notin> set (address_attempts ''9 Lake Dr Drive Thru, Lexington, KY 40507'')
   \<and> address_attempts ''9 Lake Dr Drive Thru, Lexington, KY 40507''
       = [''9 Lake Dr Drive Thru, Lexington, KY 40507'',
          ''9 Lake Drive Drive Thru, Lexington, KY 40507'']"
  by code_simp

text \<open>
  C6 (amended): for every canonical address and every entry of the table (an
  abbreviation of Dr, St, Ave, Rd, Blvd or Cir with a space before it and a space or a
  comma after it, and its full word between the same characters): if the abbreviated
  form occurs in the address, the address in which \<open>replace\<close> has put the full word for
  it is a candidate; otherwise, if the full word occurs, the address in which \<open>replace\<close>
  has put the abbreviation for it is a candidate. (\<open>replace\<close> works from left to right
  on occurrences that do not overlap: of two occurrences that share a space only the
  first is replaced.) The table contributes nothing else: every candidate is the address
  itself, the base address of a suite pattern that occurs, the address with the suite
  fragments deleted, or one of these replacements.
\<close>

theorem abbreviation_candidates:
  "((abbrev, full_word) \<in> set street_abbrev_variations \<and> occurs_in abbrev addr
      \<longrightarrow> py_replace abbrev full_word addr \<in> set (address_attempts addr))
   \<and> ((abbrev, full_word) \<in> set street_abbrev_variations
        \<and> \<not> occurs_in abbrev addr \<and> occurs_in full_word addr
      \<longrightarrow> py_replace full_word abbrev addr \<in> set (address_attempts addr))
   \<and> (x \<in> set (address_attempts addr)
      \<longrightarrow> x = addr
          \<or> (\<exists>pattern \<in> set geo_suite_patterns.
                occurs_in pattern addr \<and> x = suite_base_address addr pattern)
          \<or> x = re_remove suite_fragment addr
          \<or> (\<exists>(a, f) \<in> set street_abbrev_variations.
                (occurs_in a addr \<and> x = py_replace a f addr)
                \<or> (\<not> occurs_in a addr \<and> occurs_in f addr \<and> x = py_replace f a addr)))"
proof -
  have 1: "py_replace abbrev full_word addr \<in> set (address_attempts addr)"
    if "(abbrev, full_word) \<in> set street_abbrev_variations" "occurs_in abbrev addr"
    unfolding set_address_attempts using that
    by (auto simp: abbrev_variation_def intro!: bexI [of _ "(abbrev, full_word)"])
  have 2: "py_replace full_word abbrev addr \<in> set (address_attempts addr)"
    if "(abbrev, full_word) \<in> set street_abbrev_variations"
      "\<not> occurs_in abbrev addr" "occurs_in full_word addr"
    unfolding set_address_attempts using that
    by (auto simp: abbrev_variation_def intro!: bexI [of _ "(abbrev, full_word)"])
  have 3: "x = addr
          \<or> (\<exists>pattern \<in> set geo_suite_patterns.
                occurs_in pattern addr \<and> x = suite_base_address addr pattern)
          \<or> x = re_remove suite_fragment addr
          \<or> (\<exists>(a, f) \<in> set street_abbrev_variations.
                (occurs_in a addr \<and> x = py_replace a f addr)
                \<or> (\<not> occurs_in a addr \<and> occurs_in f addr \<and> x = py_replace f a addr))"
    if "x \<in> set (address_attempts addr)"
    using that unfolding set_address_attempts
    by (auto simp: abbrev_variation_def split: if_splits)
  from 1 2 3 show ?thesis
    by blast
qed

theorem abbreviation_candidates_witness:
  "('' St,'', '' Street,'') \<in> set street_abbrev_variations
   \<and> occurs_in '' St,'' ''500 W Main St, Lexington, KY 40507''
   \<and> py_replace '' St,'' '' Street,'' ''500 W Main St, Lexington, KY 40507''
       = ''500 W Main Street, Lexington, KY 40507''
   \<and> ''500 W Main Street, Lexington, KY 40507''
       \<in> set (address_attempts ''500 W Main St, Lexington, KY 40507'')
   \<and> ('' Rd '', '' Road '') \<in> set street_abbrev_variations
   \<and> \<not> occurs_in '' Rd '' ''12 Old Frankfort Road Lexington, KY 40510''
   \<and> occurs_in '' Road '' ''12 Old Frankfort Road Lexington, KY 40510''
   \<and> py_replace '' Road '' '' Rd '' ''12 Old Frankfort Road Lexington, KY 40510''
       \<in> set (address_attempts ''12 Old Frankfort Road Lexington, KY 40510'')
   \<and> ('' Dr '', '' Drive '') \<in> set street_abbrev_variations
   \<and> occurs_in '' Dr '' ''5 Dr Dr Lane, KY 40000''
   \<and> py_replace '' Dr '' '' Drive '' ''5 Dr Dr Lane, KY 40000'' = ''5 Drive Dr Lane, KY 40000''
   \<and> ''5 Drive Dr Lane, KY 40000'' \<in> set (address_attempts ''5 Dr Dr Lane, KY 40000'')"
proof -
  have st: "('' St,'', '' Street,'') \<in> set street_abbrev_variations"
    and rd: "('' Rd '', '' Road '') \<in> set street_abbrev_variations"
    and dr: "('' Dr '', '' Drive '') \<in> set street_abbrev_variations"
    by (simp_all add: street_abbrev_variations_def)
  have facts: "occurs_in '' St,'' ''500 W Main St, Lexington, KY 40507''"
    "py_replace '' St,'' '' Street,'' ''500 W Main St, Lexington, KY 40507''
       = ''500 W Main Street, Lexington, KY 40507''"
    "\<not> occurs_in '' Rd '' ''12 Old Frankfort Road Lexington, KY 40510''"
    "occurs_in '' Road '' ''12 Old Frankfort Road Lexington, KY 40510''"
    "occurs_in '' Dr '' ''5 Dr Dr Lane, KY 40000''"
    "py_replace '' Dr '' '' Drive '' ''5 Dr Dr Lane, KY 40000'' = ''5 Drive Dr Lane, KY 40000''"
    by code_simp+
  from abbreviation_candidates
         [of "'' St,''" "'' Street,''" "''500 W Main St, Lexington, KY 40507''"] st facts
  have a: "''500 W Main Street, Lexington, KY 40507''
       \<in> set (address_attempts ''500 W Main St, Lexington, KY 40507'')"
    by simp
  from abbreviation_candidates
         [of "'' Rd ''" "'' Road ''" "''12 Old Frankfort Road Lexington, KY 40510''"] rd facts
  have b: "py_replace '' Road '' '' Rd '' ''12 Old Frankfort Road Lexington, KY 40510''
       \<in> set (address_attempts ''12 Old Frankfort Road Lexington, KY 40510'')"
    by simp
  from abbreviation_candidates
         [of "'' Dr ''" "'' Drive ''" "''5 Dr Dr Lane, KY 40000''"] dr facts
  have c: "''5 Drive Dr Lane, KY 40000'' \<in> set (address_attempts ''5 Dr Dr Lane, KY 40000'')"
    by simp
  from st rd dr facts a b c show ?thesis
    by blast
qed

section \<open>Properties of the resolver\<close>

lemma try_attempts_all_fail:
  "(\<And>j. j < length qs \<Longrightarrow> isl (attempt pf (svc (k + j) (qs ! j)))) \<Longrightarrow>
     try_attempts pf svc k qs = (None, qs)"
proof (induction qs arbitrary: k)
  case Nil
  show ?case by simp
next
  case (Cons q qs)
  have first: "isl (attempt pf (svc k q))"
    using Cons.prems [of 0] by simp
  have "\<And>j. j < length qs \<Longrightarrow> isl (attempt pf (svc (Suc k + j) (qs ! j)))"
    using Cons.prems [of "Suc j" for j] by simp
  then have "try_attempts pf svc (Suc k) qs = (None, qs)"
    by (rule Cons.IH)
  with first show ?case
    by (cases "attempt pf (svc k q)") simp_all
qed

lemma try_attempts_first_success:
  "i < length qs \<Longrightarrow>
   (\<And>j. j < i \<Longrightarrow> isl (attempt pf (svc (k + j) (qs ! j)))) \<Longrightarrow>
   attempt pf (svc (k + i) (qs ! i)) = Inr c \<Longrightarrow>
     try_attempts pf svc k qs = (Some c, take (Suc i) qs)"
proof (induction qs arbitrary: k i)
  case Nil
  then show ?case by simp
next
  case (Cons q qs)
  show ?case
  proof (cases i)
    case 0
    with Cons.prems(3) show ?thesis by simp
  next
    case (Suc i')
    have first: "isl (attempt pf (svc k q))"
      using Cons.prems(2) [of 0] Suc by simp
    have "i' < length qs"
      using Cons.prems(1) Suc by simp
    moreover have "\<And>j. j < i' \<Longrightarrow> isl (attempt pf (svc (Suc k + j) (qs ! j)))"
      using Cons.prems(2) [of "Suc j" for j] Suc by simp
    moreover have "attempt pf (svc (Suc k + i') (qs ! i')) = Inr c"
      using Cons.prems(3) Suc by simp
    ultimately have "try_attempts pf svc (Suc k) qs = (Some c, take (Suc i') qs)"
      by (rule Cons.IH)
    with first Suc show ?thesis
      by (cases "attempt pf (svc k q)") simp_all
  qed
qed

lemma attempt_fault: "isl (attempt pf (Raises f))"
  by (cases f) (simp_all add: attempt_def)

lemma attempt_no_results: "isl (attempt pf (Json []))"
  by (simp add: attempt_def)

lemma try_attempts_sent_prefix:
  "(\<And>j. j < m \<Longrightarrow> j < length qs \<Longrightarrow> isl (attempt pf (svc (k + j) (qs ! j)))) \<Longrightarrow>
     prefix (take (Suc m) qs) (snd (try_attempts pf svc k qs))"
proof (induction qs arbitrary: k m)
  case Nil
  show ?case by simp
next
  case (Cons q qs)
  show ?case
  proof (cases m)
    case 0
    then show ?thesis
      by (cases "attempt pf (svc k q)") (auto split: prod.splits)
  next
    case (Suc m')
    have first: "isl (attempt pf (svc k q))"
      using Cons.prems [of 0] Suc by simp
    have "\<And>j. j < m' \<Longrightarrow> j < length qs \<Longrightarrow> isl (attempt pf (svc (Suc k + j) (qs ! j)))"
      using Cons.prems [of "Suc j" for j] Suc by simp
    then have "prefix (take (Suc m') qs) (snd (try_attempts pf svc (Suc k) qs))"
      by (rule Cons.IH)
    with first Suc show ?thesis
      by (cases "attempt pf (svc k q)") (auto split: prod.splits)
  qed
qed

lemma snd_geocode_address:
  "addr \<noteq> [] \<Longrightarrow>
     snd (geocode_address pf svc addr original) = snd (try_attempts pf svc 0 (address_attempts addr))"
  by (auto simp: geocode_address_def split: prod.splits option.splits)

lemma attempt_success_iff:
  "attempt pf (Json results) = Inr (lat, lon) \<longleftrightarrow>
     results \<noteq> []
     \<and> list_all (\<lambda>r. match_display_name r \<noteq> Unusable) results
     \<and> (\<exists>t. match_lat (best_result results) = Text t \<and> pf t = Some lat)
     \<and> (\<exists>t. match_lon (best_result results) = Text t \<and> pf t = Some lon)"
  by (auto simp: attempt_def read_float_def list_all_iff list_ex_iff
      split: field.splits option.splits)

lemma attempt_failure_iff:
  "isl (attempt pf (Json results)) \<longleftrightarrow>
     \<not> (results \<noteq> []
        \<and> list_all (\<lambda>r. match_display_name r \<noteq> Unusable) results
        \<and> (\<exists>t x. match_lat (best_result results) = Text t \<and> pf t = Some x)
        \<and> (\<exists>t y. match_lon (best_result results) = Text t \<and> pf t = Some y))"
proof -
  have "isl (attempt pf (Json results)) \<longleftrightarrow> \<not> (\<exists>x y. attempt pf (Json results) = Inr (x, y))"
    by (cases "attempt pf (Json results)") auto
  then show ?thesis
    by (simp only: attempt_success_iff) blast
qed

lemma best_result_find:
  "best_result results =
     (case List.find (\<lambda>r. occurs_in ''kentucky'' (lower (display_text r))) results of
        Some r \<Rightarrow> r
      | None \<Rightarrow> hd results)"
proof -
  have "List.find P results
          = (if filter P results \<noteq> [] then Some (hd (filter P results)) else None)" for P
    by (induction results) simp_all
  then show ?thesis
    by (simp add: best_result_def)
qed

lemma show_nat_2: "show_nat (Suc (Suc 0)) = ''2''"
  by code_simp

lemma show_nat_5: "show_nat (Suc (Suc (Suc (Suc (Suc 0))))) = ''5''"
  by code_simp

text \<open>
  C2 (the claim as written fails): a query that returns a match is not enough. When the
  latitude or longitude of the selected match is missing or is no number, \<open>float\<close> or
  the key lookup raises, the exception is caught as a data parsing error, and the loop
  goes on to the next candidate. Here the first query returns one match (with latitude
  \<open>n/a\<close>), the second candidate is tried all the same, and the call fails.
\<close>

theorem malformed_match_counterexample:
  "address_attempts ''500 W Main St, Lexington, KY 40507''
     = [''500 W Main St, Lexington, KY 40507'', ''500 W Main Street, Lexington, KY 40507'']
   \<and> malformed_service 0 ''500 W Main St, Lexington, KY 40507''
     = Json [\<lparr>match_display_name = Text ''Lexington, Fayette County, Kentucky, United States'',
              match_lat = Text ''n/a'', match_lon = Text ''-84.4970''\<rparr>]
   \<and> geocode_address sample_float malformed_service
        ''500 W Main St, Lexington, KY 40507'' ''500 W Main St, Lexington''
     = (Inl ''All 2 geocoding attempts failed for: 500 W Main St, Lexington'',
        [''500 W Main St, Lexington, KY 40507'', ''500 W Main Street, Lexington, KY 40507''])"
  by code_simp

text \<open>
  C2 (amended): for every candidate list and every service behaviour, when every attempt
  before index \<open>i\<close> has failed and the query for the candidate at index \<open>i\<close> returns one
  or more matches, the selected match is the first one whose display name contains
  \<open>kentucky\<close> when lowered, or the first match if there is none, and:
  if no match of the answer has a display name that is not text, and the latitude and
  longitude of the selected match are text that parses as floats, the resolver returns
  these two numbers at once, the queries sent being the candidates \<open>0\<close> to \<open>i\<close>, so that
  no later candidate is tried; in every other case (a display name that is not text, a
  latitude or longitude that is missing, not text or no number) the attempt fails and the
  loop goes on: the candidates \<open>0\<close> to \<open>i + 1\<close>, as far as the list goes, are all
  queried.
\<close>

theorem geocode_address_first_match:
  assumes "addr \<noteq> []"
    and "i < length (address_attempts addr)"
    and "\<forall>j<i. isl (attempt pf (svc j (address_attempts addr ! j)))"
    and "svc i (address_attempts addr ! i) = Json results"
    and "results \<noteq> []"
  shows "(list_all (\<lambda>r. match_display_name r \<noteq> Unusable) results
          \<and> match_lat (best_result results) = Text lat_text \<and> pf lat_text = Some lat
          \<and> match_lon (best_result results) = Text lon_text \<and> pf lon_text = Some lon
          \<longrightarrow> geocode_address pf svc addr original
                = (Inr (lat, lon), take (Suc i) (address_attempts addr)))
         \<and> (\<not> (list_all (\<lambda>r. match_display_name r \<noteq> Unusable) results
                \<and> (\<exists>t x. match_lat (best_result results) = Text t \<and> pf t = Some x)
                \<and> (\<exists>t y. match_lon (best_result results) = Text t \<and> pf t = Some y))
          \<longrightarrow> isl (attempt pf (svc i (address_attempts addr ! i)))
              \<and> prefix (take (Suc (Suc i)) (address_attempts addr))
                       (snd (geocode_address pf svc addr original)))
         \<and> best_result results =
             (case List.find (\<lambda>r. occurs_in ''kentucky'' (lower (display_text r))) results of
                Some r \<Rightarrow> r
              | None \<Rightarrow> hd results)"
proof -
  let ?qs = "address_attempts addr"
  have before: "\<And>j. j < i \<Longrightarrow> isl (attempt pf (svc (0 + j) (?qs ! j)))"
    using assms(3) by simp
  have good: "geocode_address pf svc addr original = (Inr (lat, lon), take (Suc i) ?qs)"
    if "list_all (\<lambda>r. match_display_name r \<noteq> Unusable) results"
      and "match_lat (best_result results) = Text lat_text" and "pf lat_text = Some lat"
      and "match_lon (best_result results) = Text lon_text" and "pf lon_text = Some lon"
  proof -
    have "attempt pf (svc (0 + i) (?qs ! i)) = Inr (lat, lon)"
      using that assms(4,5) by (simp add: attempt_success_iff)
    with assms(2) before
    have "try_attempts pf svc 0 ?qs = (Some (lat, lon), take (Suc i) ?qs)"
      by (intro try_attempts_first_success)
    then show ?thesis
      using assms(1) by (simp add: geocode_address_def)
  qed
  have bad: "isl (attempt pf (svc i (?qs ! i)))
      \<and> prefix (take (Suc (Suc i)) ?qs) (snd (geocode_address pf svc addr original))"
    if "\<not> (list_all (\<lambda>r. match_display_name r \<noteq> Unusable) results
                \<and> (\<exists>t x. match_lat (best_result results) = Text t \<and> pf t = Some x)
                \<and> (\<exists>t y. match_lon (best_result results) = Text t \<and> pf t = Some y))"
  proof -
    have here: "isl (attempt pf (svc i (?qs ! i)))"
      using that assms(4) by (simp only: attempt_failure_iff) blast
    have "isl (attempt pf (svc (0 + j) (?qs ! j)))" if "j < Suc i" for j
      using that here assms(3) by (cases "j = i") simp_all
    then have "prefix (take (Suc (Suc i)) ?qs) (snd (try_attempts pf svc 0 ?qs))"
      by (intro try_attempts_sent_prefix)
    with here assms(1) show ?thesis
      by (simp add: snd_geocode_address)
  qed
  from good bad best_result_find show ?thesis
    by blast
qed

theorem geocode_address_first_match_witness:
  "geocode_address sample_float street_only_service
       ''500 W Main St, Lexington, KY 40507'' ''500 W Main St, Lexington''
     = (Inr (38.0464, - 84.4970),
        [''500 W Main St, Lexington, KY 40507'', ''500 W Main Street, Lexington, KY 40507''])
   \<and> isl (attempt sample_float (null_name_service 0 ''500 W Main St, Lexington, KY 40507''))
   \<and> prefix [''500 W Main St, Lexington, KY 40507'', ''500 W Main Street, Lexington, KY 40507'']
        (snd (geocode_address sample_float null_name_service
               ''500 W Main St, Lexington, KY 40507'' ''500 W Main St, Lexington''))"
proof -
  let ?addr = "''500 W Main St, Lexington, KY 40507''"
  let ?virginia =
    "\<lparr>match_display_name = Text ''West Main Street, Lexington, Virginia, United States'',
      match_lat = Text ''37.7840'', match_lon = Text ''-79.4428''\<rparr>"
  let ?kentucky =
    "\<lparr>match_display_name =
        Text ''500, West Main Street, Lexington, Fayette County, Kentucky, 40507, United States'',
      match_lat = Text ''38.0464'', match_lon = Text ''-84.4970''\<rparr>"
  let ?null =
    "\<lparr>match_display_name = Unusable, match_lat = Text ''37.7840'', match_lon = Text ''-79.4428''\<rparr>"
  have best: "best_result [?virginia, ?kentucky] = ?kentucky"
    by code_simp
  have hyps: "?addr \<noteq> []"
    "1 < length (address_attempts ?addr)"
    "\<forall>j<1. isl (attempt sample_float (street_only_service j (address_attempts ?addr ! j)))"
    "street_only_service 1 (address_attempts ?addr ! 1) = Json [?virginia, ?kentucky]"
    "[?virginia, ?kentucky] \<noteq> []"
    by (simp_all add: attempts_main_street street_only_service_def attempt_no_results)
  have parsed: "list_all (\<lambda>r. match_display_name r \<noteq> Unusable) [?virginia, ?kentucky]"
    "match_lat (best_result [?virginia, ?kentucky]) = Text ''38.0464''"
    "sample_float ''38.0464'' = Some 38.0464"
    "match_lon (best_result [?virginia, ?kentucky]) = Text ''-84.4970''"
    "sample_float ''-84.4970'' = Some (- 84.4970)"
    by (simp_all add: sample_float_def best)
  from geocode_address_first_match
         [where addr = ?addr and i = 1 and pf = sample_float and svc = street_only_service
            and results = "[?virginia, ?kentucky]"
            and lat_text = "''38.0464''" and lat = "38.0464"
            and lon_text = "''-84.4970''" and lon = "- 84.4970"
            and original = "''500 W Main St, Lexington''", OF hyps]
       parsed
  have one: "geocode_address sample_float street_only_service ?addr ''500 W Main St, Lexington''
      = (Inr (38.0464, - 84.4970), take (Suc 1) (address_attempts ?addr))"
    by blast
  have hyps0: "?addr \<noteq> []"
    "0 < length (address_attempts ?addr)"
    "\<forall>j<0. isl (attempt sample_float (null_name_service j (address_attempts ?addr ! j)))"
    "null_name_service 0 (address_attempts ?addr ! 0) = Json [?null, ?kentucky]"
    "[?null, ?kentucky] \<noteq> []"
    by (simp_all add: attempts_main_street null_name_service_def)
  have "\<not> list_all (\<lambda>r. match_display_name r \<noteq> Unusable) [?null, ?kentucky]"
    by simp
  with geocode_address_first_match
         [where addr = ?addr and i = 0 and pf = sample_float and svc = null_name_service
            and results = "[?null, ?kentucky]"
            and original = "''500 W Main St, Lexington''", OF hyps0]
  have two: "isl (attempt sample_float (null_name_service 0 (address_attempts ?addr ! 0)))
      \<and> prefix (take (Suc (Suc 0)) (address_attempts ?addr))
           (snd (geocode_address sample_float null_name_service ?addr ''500 W Main St, Lexington''))"
    by blast
  from one two show ?thesis
    by (simp add: attempts_main_street)
qed

text \<open>
  C3: for every candidate list of size \<open>N\<close> and every service behaviour in which each
  attempt fails (an exception of the transport, a parsing error, any other exception, an
  empty list of matches, or a selected match whose coordinates do not parse), the
  resolver queries all \<open>N\<close> candidates in order, raises nothing, and returns the failure
  whose message counts \<open>N\<close> attempts and ends with the original address (with the
  formatted address when no original address was passed).
\<close>

theorem geocode_address_exhausted:
  assumes "addr \<noteq> []"
    and "\<forall>j<length (address_attempts addr).
           isl (attempt pf (svc j (address_attempts addr ! j)))"
  shows "geocode_address pf svc addr original
           = (Inl (''All '' @ show_nat (length (address_attempts addr))
                   @ '' geocoding attempts failed for: ''
                   @ (if original = [] then addr else original)),
              address_attempts addr)
         \<and> isl (attempt pf (Raises f))
         \<and> isl (attempt pf (Json []))"
proof -
  have "\<And>j. j < length (address_attempts addr)
          \<Longrightarrow> isl (attempt pf (svc (0 + j) (address_attempts addr ! j)))"
    using assms(2) by simp
  then have "try_attempts pf svc 0 (address_attempts addr) = (None, address_attempts addr)"
    by (rule try_attempts_all_fail)
  then show ?thesis
    using assms(1) by (simp add: geocode_address_def attempt_fault attempt_no_results)
qed

theorem geocode_address_exhausted_witness:
  "geocode_address sample_float unreachable_service
       ''2100 Buena Vista Rd, Suite 1 Lexington KY 40505''
       ''2100 Buena Vista Rd Suite 1 Lexington KY 40505''
     = (Inl ''All 5 geocoding attempts failed for: 2100 Buena Vista Rd Suite 1 Lexington KY 40505'',
        [''2100 Buena Vista Rd, Suite 1 Lexington KY 40505'',
         ''2100 Buena Vista Rd, Lexington KY 40505'',
         ''2100 Buena Vista Rd,, Lexington KY 40505'',
         ''2100 Buena Vista Rd Lexington KY 40505'',
         ''2100 Buena Vista Road, Suite 1 Lexington KY 40505''])
   \<and> geocode_address sample_float no_match_service
       ''500 W Main St, Lexington, KY 40507'' []
     = (Inl ''All 2 geocoding attempts failed for: 500 W Main St, Lexington, KY 40507'',
        [''500 W Main St, Lexington, KY 40507'', ''500 W Main Street, Lexington, KY 40507''])"
proof -
  let ?a = "''2100 Buena Vista Rd, Suite 1 Lexington KY 40505''"
  let ?b = "''500 W Main St, Lexington, KY 40507''"
  have a: "?a \<noteq> []"
    "\<forall>j<length (address_attempts ?a).
       isl (attempt sample_float (unreachable_service j (address_attempts ?a ! j)))"
    by (simp_all add: unreachable_service_def attempt_fault)
  have b: "?b \<noteq> []"
    "\<forall>j<length (address_attempts ?b).
       isl (attempt sample_float (no_match_service j (address_attempts ?b ! j)))"
    by (simp_all add: no_match_service_def attempt_no_results)
  from geocode_address_exhausted
         [where addr = ?a and pf = sample_float and svc = unreachable_service
            and original = "''2100 Buena Vista Rd Suite 1 Lexington KY 40505''", OF a]
       geocode_address_exhausted
         [where addr = ?b and pf = sample_float and svc = no_match_service
            and original = "[]", OF b]
  show ?thesis
    by (simp add: attempts_buena_vista attempts_main_street show_nat_2 show_nat_5)
qed

section \<open>Properties of the override table and of the failure report\<close>

lemma manual_coordinates_iff:
  "manual_coordinates a = Some c \<longleftrightarrow>
     a = ''121 Bethel Harvest Dr Nicholasville, KY 40356'' \<and> c = (37.8814, - 84.5730)"
  by (auto simp: manual_coordinates_def)

lemma mark_shop_override:
  "manual_coordinates (shop_address shp) = Some c \<Longrightarrow>
     mark_shop pf svc st shp =
       st\<lparr>markers := markers st @ [(shop_name shp, c)],
          successful_markers := successful_markers st + 1,
          manual_overrides_used := manual_overrides_used st + 1\<rparr>"
  by (auto simp: mark_shop_def Let_def manual_coordinates_def split: if_splits)

lemma mark_shop_no_override:
  "manual_coordinates (shop_address shp) = None \<Longrightarrow>
     manual_overrides_used (mark_shop pf svc st shp) = manual_overrides_used st"
  by (auto simp: mark_shop_def Let_def split: prod.splits sum.splits)

lemma failed_geocoding_mark_shop:
  "f \<in> set (failed_geocoding (mark_shop pf svc st shp)) \<Longrightarrow>
     f \<in> set (failed_geocoding st) \<or>
     (failure_row f = shop_row_number shp \<and> failure_name f = shop_name shp
        \<and> failure_formatted_address f = shop_address shp
        \<and> failure_original_address f = shop_original_address shp)"
  by (auto simp: mark_shop_def Let_def split: prod.splits sum.splits option.splits if_splits)

lemma failed_geocoding_foldl:
  "f \<in> set (failed_geocoding (foldl (mark_shop pf svc) st shops)) \<Longrightarrow>
     f \<in> set (failed_geocoding st) \<or>
     (\<exists>s\<in>set shops. failure_row f = shop_row_number s \<and> failure_name f = shop_name s
        \<and> failure_formatted_address f = shop_address s
        \<and> failure_original_address f = shop_original_address s)"
proof (induction shops arbitrary: st)
  case Nil
  then show ?case by simp
next
  case (Cons s shops)
  from Cons.prems
  have "f \<in> set (failed_geocoding (foldl (mark_shop pf svc) (mark_shop pf svc st s) shops))"
    by simp
  from Cons.IH [OF this] show ?case
    using failed_geocoding_mark_shop [of f pf svc st s] by auto
qed

text \<open>
  C1: for every record whose formatted address is a key of the override table, the loop
  body puts the marker at the coordinates of the table, counts one manual override and
  sends no query to the geocoding service; the table is looked up with the formatted
  address alone (when that is no key, no override is counted, whatever the original
  address is), and its only key is matched by equality of strings.
\<close>

theorem override_short_circuits:
  "(manual_coordinates (shop_address shp) = Some c \<longrightarrow>
      mark_shop pf svc st shp =
        st\<lparr>markers := markers st @ [(shop_name shp, c)],
           successful_markers := successful_markers st + 1,
           manual_overrides_used := manual_overrides_used st + 1\<rparr>
      \<and> requests (mark_shop pf svc st shp) = requests st)
   \<and> (manual_coordinates (shop_address shp) = None \<longrightarrow>
        manual_overrides_used (mark_shop pf svc st shp) = manual_overrides_used st)
   \<and> (manual_coordinates a = Some c' \<longleftrightarrow>
        a = ''121 Bethel Harvest Dr Nicholasville, KY 40356'' \<and> c' = (37.8814, - 84.5730))"
  by (simp add: mark_shop_override mark_shop_no_override manual_coordinates_iff)

theorem override_short_circuits_witness:
  "fetch_coffee_shops
     [sheet_header,
      [''Joes Coffee'', ''121 Bethel Harvest Dr Nicholasville, KY 40356'', [], [], [], ''Jessamine'']]
     = [\<lparr>shop_name = ''Joes Coffee'',
          shop_address = ''121 Bethel Harvest Dr Nicholasville, KY 40356'',
          shop_original_address = ''121 Bethel Harvest Dr Nicholasville, KY 40356'',
          shop_county = ''Jessamine'', shop_location_num = 1, shop_row_number = 2\<rparr>]
   \<and> add_coffee_shop_markers sample_float unreachable_service
       [\<lparr>shop_name = ''Joes Coffee'',
          shop_address = ''121 Bethel Harvest Dr Nicholasville, KY 40356'',
          shop_original_address = ''121 Bethel Harvest Dr Nicholasville, KY 40356'',
          shop_county = ''Jessamine'', shop_location_num = 1, shop_row_number = 2\<rparr>]
     = \<lparr>markers = [(''Joes Coffee'', 37.8814, - 84.5730)], successful_markers = 1,
        manual_overrides_used = 1, failed_geocoding = [], requests = []\<rparr>"
proof -
  let ?shop = "\<lparr>shop_name = ''Joes Coffee'',
          shop_address = ''121 Bethel Harvest Dr Nicholasville, KY 40356'',
          shop_original_address = ''121 Bethel Harvest Dr Nicholasville, KY 40356'',
          shop_county = ''Jessamine'', shop_location_num = 1, shop_row_number = 2\<rparr>"
  have fetched: "fetch_coffee_shops
     [sheet_header,
      [''Joes Coffee'', ''121 Bethel Harvest Dr Nicholasville, KY 40356'', [], [], [], ''Jessamine'']]
     = [?shop]"
    by code_simp
  have key: "manual_coordinates (shop_address ?shop) = Some (37.8814, - 84.5730)"
    by (simp add: manual_coordinates_def)
  from override_short_circuits
         [of ?shop "(37.8814, - 84.5730)" sample_float unreachable_service initial_marking]
       key
  have "mark_shop sample_float unreachable_service initial_marking ?shop =
          initial_marking\<lparr>markers := markers initial_marking @ [(shop_name ?shop, 37.8814, - 84.5730)],
             successful_markers := successful_markers initial_marking + 1,
             manual_overrides_used := manual_overrides_used initial_marking + 1\<rparr>"
    by blast
  then have "add_coffee_shop_markers sample_float unreachable_service [?shop]
     = \<lparr>markers = [(''Joes Coffee'', 37.8814, - 84.5730)], successful_markers = 1,
        manual_overrides_used = 1, failed_geocoding = [], requests = []\<rparr>"
    by (simp add: add_coffee_shop_markers_def initial_marking_def)
  with fetched show ?thesis
    by blast
qed

text \<open>
  C10: the records of the result are those of the data rows, the row at the 1-based
  position \<open>k + 1\<close> among the data rows (skipped short rows counted) being enumerated as
  \<open>k + 1\<close>; every record made from the row enumerated as \<open>p\<close> carries the row number
  \<open>p + 1\<close>, so the first data row is row 2 and both records of a row with two addresses
  carry the same number; and every entry of the failure report carries the row number
  of the shop it reports.
\<close>

theorem row_number_is_sheet_row:
  "(r \<in> set (fetch_coffee_shops (header # rows))
      \<longleftrightarrow> (\<exists>k<length rows. r \<in> set (row_shops (k + 1) (rows ! k))))
   \<and> (\<forall>r' \<in> set (row_shops p row). shop_row_number r' = p + 1)
   \<and> (\<forall>f \<in> set (failed_geocoding (add_coffee_shop_markers pf svc shops)).
        \<exists>s \<in> set shops.
          failure_row f = shop_row_number s \<and> failure_name f = shop_name s
          \<and> failure_formatted_address f = shop_address s
          \<and> failure_original_address f = shop_original_address s)"
proof -
  have "r \<in> set (fetch_coffee_shops (header # rows))
      \<longleftrightarrow> (\<exists>k<length rows. r \<in> set (row_shops (k + 1) (rows ! k)))"
    by (auto simp: set_fetch_coffee_shops)
  moreover have "\<forall>r' \<in> set (row_shops p row). shop_row_number r' = p + 1"
    by (simp add: row_shops_row_number)
  moreover have "\<forall>f \<in> set (failed_geocoding (add_coffee_shop_markers pf svc shops)).
        \<exists>s \<in> set shops.
          failure_row f = shop_row_number s \<and> failure_name f = shop_name s
          \<and> failure_formatted_address f = shop_address s
          \<and> failure_original_address f = shop_original_address s"
    using failed_geocoding_foldl [of _ pf svc initial_marking shops]
    by (auto simp: add_coffee_shop_markers_def initial_marking_def)
  ultimately show ?thesis
    by blast
qed

theorem row_number_is_sheet_row_witness:
  "fetch_coffee_shops
      [sheet_header, [''note''], [''Corner Cafe'', ''1 Main St'', ''2 Oak St'', [], [], ''Fayette'']]
     = row_shops 2 [''Corner Cafe'', ''1 Main St'', ''2 Oak St'', [], [], ''Fayette'']
   \<and> length (row_shops 2 [''Corner Cafe'', ''1 Main St'', ''2 Oak St'', [], [], ''Fayette'']) = 2
   \<and> list_all (\<lambda>r. shop_row_number r = 3)
        (row_shops 2 [''Corner Cafe'', ''1 Main St'', ''2 Oak St'', [], [], ''Fayette''])"
proof -
  let ?row = "[''Corner Cafe'', ''1 Main St'', ''2 Oak St'', [], [], ''Fayette'']"
  have "fetch_coffee_shops [sheet_header, [''note''], ?row] = row_shops 2 ?row"
    and "length (row_shops 2 ?row) = 2"
    by code_simp+
  moreover from row_number_is_sheet_row [of _ _ _ 2 ?row]
  have "\<forall>r' \<in> set (row_shops 2 ?row). shop_row_number r' = 2 + 1"
    by blast
  then have "list_all (\<lambda>r. shop_row_number r = 3) (row_shops 2 ?row)"
    by (simp add: list_all_iff)
  ultimately show ?thesis
    by blast
qed

section \<open>Properties of the normalizer\<close>

text \<open>
  C7 (the claim as written fails): a raw address made of whitespace only is not empty, so
  it passes the emptiness test at the top of \<open>format_address\<close>, is trimmed to the
  empty string and then receives the state suffix: two spaces normalize to \<open>", KY"\<close>,
  not to the empty string.
\<close>

theorem format_address_blank_counterexample:
  "list_all isspace ''  '' \<and> format_address ''  '' [] = '', KY'' \<and> format_address ''  '' [] \<noteq> []"
  by code_simp

text \<open>
  C7 (amended): for the empty raw address and every county argument the normalizer
  returns the empty string.
\<close>

theorem format_address_empty:
  "format_address [] county = []"
  by (simp add: format_address_def)

theorem format_address_empty_witness:
  "format_address [] ''Fayette'' = []"
  using format_address_empty [of "''Fayette''"] by simp

subsection \<open>A second pass of the normalizer\<close>

lemma occurs_in_sublist: "occurs_in p s \<longleftrightarrow> sublist p s"
  by (induction s) (simp_all add: sublist_Cons_right)

lemma last_dropWhile: "dropWhile P xs \<noteq> [] \<Longrightarrow> last (dropWhile P xs) = last xs"
  by (induction xs) (auto split: if_splits)

lemma py_strip_trimmed: "trimmed (py_strip s)"
proof (cases "py_strip s = []")
  case True
  then show ?thesis by (simp add: trimmed_def)
next
  case False
  define t where "t = dropWhile isspace s"
  define u where "u = dropWhile isspace (rev t)"
  have strip: "py_strip s = rev u"
    by (simp add: py_strip_def t_def u_def)
  with False have u: "u \<noteq> []" by simp
  then have t: "t \<noteq> []" by (auto simp: u_def)
  have "\<not> isspace (hd u)"
    using u unfolding u_def by (rule hd_dropWhile)
  then have l: "\<not> isspace (last (py_strip s))"
    by (simp add: strip last_rev)
  have "last u = last (rev t)"
    using u unfolding u_def by (rule last_dropWhile)
  then have "hd (py_strip s) = hd t"
    by (simp add: strip hd_rev last_rev)
  moreover have "\<not> isspace (hd t)"
    using t unfolding t_def by (rule hd_dropWhile)
  ultimately show ?thesis
    using l by (simp add: trimmed_def)
qed

lemma py_strip_id: "trimmed s \<Longrightarrow> py_strip s = s"
proof (cases "s = []")
  case True
  then show ?thesis by (simp add: py_strip_def)
next
  case False
  assume "trimmed s"
  with False have h: "\<not> isspace (hd s)" and l: "\<not> isspace (last s)"
    by (simp_all add: trimmed_def)
  from h have "dropWhile isspace s = s"
    by (simp add: dropWhile_eq_self_iff)
  moreover from l have "dropWhile isspace (rev s) = rev s"
    by (simp add: dropWhile_eq_self_iff hd_rev)
  ultimately show ?thesis
    by (simp add: py_strip_def)
qed

lemma py_find_prefix:
  "0 \<le> py_find p s \<Longrightarrow>
     nat (py_find p s) \<le> length s \<and> prefix p (drop (nat (py_find p s)) s)"
proof (induction s)
  case Nil
  then show ?case by (simp split: if_splits)
next
  case (Cons c cs)
  show ?case
  proof (cases "prefix p (c # cs)")
    case True
    then show ?thesis by simp
  next
    case False
    with Cons.prems have r: "0 \<le> py_find p cs" and eq: "py_find p (c # cs) = py_find p cs + 1"
      by (simp_all add: Let_def split: if_splits)
    from r have "nat (py_find p cs + 1) = Suc (nat (py_find p cs))"
      by simp
    with Cons.IH [OF r] eq show ?thesis
      by simp
  qed
qed

lemma trimmed_splice:
  assumes "s \<noteq> []" "trimmed s" "0 < n" "m \<le> length s" "rep \<noteq> []"
    and "drop m s = [] \<longrightarrow> last rep = last s"
  shows "trimmed (take n s @ rep @ drop m s)"
proof -
  have "take n s \<noteq> []"
    using assms(1,3) by simp
  then have "hd (take n s @ rep @ drop m s) = hd s"
    using assms(3) by simp
  moreover have "last (take n s @ rep @ drop m s) = last s"
  proof (cases "drop m s = []")
    case True
    with assms(5,6) show ?thesis by simp
  next
    case False
    then have "m < length s" by simp
    with False show ?thesis by simp
  qed
  ultimately show ?thesis
    using assms(1,2) by (simp add: trimmed_def)
qed

lemma add_suite_comma_trimmed:
  assumes "p \<noteq> []" "rep \<noteq> []" "last rep = last p" "trimmed s"
  shows "trimmed (add_suite_comma s (p, rep))"
proof (cases "add_suite_comma s (p, rep) = s")
  case True
  with assms(4) show ?thesis by simp
next
  case False
  define pos where "pos = py_find p s"
  from False have pos: "0 < pos"
    by (auto simp: add_suite_comma_def Let_def pos_def split: if_splits)
  then have "0 \<le> py_find p s" by (simp add: pos_def)
  from py_find_prefix [OF this]
  have le: "nat pos \<le> length s" and pre: "prefix p (drop (nat pos) s)"
    by (simp_all add: pos_def)
  from pre obtain rest where rest: "drop (nat pos) s = p @ rest"
    by (auto simp: prefix_def)
  have "drop (length p) (drop (nat pos) s) = rest"
    by (simp add: rest)
  then have rest_eq: "drop (nat pos + length p) s = rest"
    by (simp add: add.commute)
  have lt: "nat pos < length s"
    using rest assms(1) le by (cases "nat pos = length s") auto
  then have ne: "s \<noteq> []" by auto
  have "length (drop (nat pos) s) = length p + length rest"
    by (simp add: rest)
  then have "length s - nat pos = length p + length rest"
    by simp
  moreover have "0 < length p"
    using assms(1) by simp
  ultimately have m: "nat pos + length p \<le> length s"
    by arith
  have lastp: "drop (nat pos + length p) s = [] \<longrightarrow> last rep = last s"
  proof
    assume "drop (nat pos + length p) s = []"
    with rest rest_eq have "drop (nat pos) s = p" by simp
    moreover have "last (drop (nat pos) s) = last s"
      using lt by simp
    ultimately show "last rep = last s"
      using assms(3) by simp
  qed
  have first: "\<not> isspace (s ! 0)"
    using assms(4) ne by (simp add: trimmed_def hd_conv_nth)
  consider (a) "add_suite_comma s (p, rep) = take (nat pos) s @ rep @ drop (nat pos + length p) s"
    | (b) "s ! nat (pos - 1) = CHR '' ''"
        "add_suite_comma s (p, rep) = take (nat (pos - 1)) s @ rep @ drop (nat pos + length p) s"
    using False by (auto simp: add_suite_comma_def Let_def pos_def split: if_splits)
  then show ?thesis
  proof cases
    case a
    have "0 < nat pos" using pos by simp
    from trimmed_splice [OF ne assms(4) this m assms(2) lastp] a show ?thesis
      by simp
  next
    case b
    have "nat (pos - 1) \<noteq> 0"
    proof
      assume "nat (pos - 1) = 0"
      with b(1) first show False by (simp add: isspace_def)
    qed
    then have "0 < nat (pos - 1)" by simp
    from trimmed_splice [OF ne assms(4) this m assms(2) lastp] b(2) show ?thesis
      by simp
  qed
qed


lemma foldl_add_suite_comma_trimmed:
  "trimmed s \<Longrightarrow> trimmed (foldl add_suite_comma s suite_patterns)"
  by (simp add: suite_patterns_def add_suite_comma_trimmed)

lemma add_state_trimmed: "trimmed s \<Longrightarrow> trimmed (add_state s)"
  by (cases "s = []") (auto simp: add_state_def trimmed_def isspace_def)

lemma py_replace_Nil_iff:
  "old \<noteq> [] \<Longrightarrow> new \<noteq> [] \<Longrightarrow> py_replace old new s = [] \<longleftrightarrow> s = []"
  by (cases s) simp_all

lemma hd_py_replace:
  "old \<noteq> [] \<Longrightarrow> new \<noteq> [] \<Longrightarrow> s \<noteq> [] \<Longrightarrow>
     hd (py_replace old new s) = (if prefix old s then hd new else hd s)"
  by (cases s) simp_all

lemma last_py_replace:
  "old \<noteq> [] \<Longrightarrow> new \<noteq> [] \<Longrightarrow> s \<noteq> [] \<Longrightarrow>
     last (py_replace old new s) = last s \<or> last (py_replace old new s) = last new"
proof (induction old new s rule: py_replace.induct)
  case (1 old new)
  then show ?case by simp
next
  case (2 old new c cs)
  show ?case
  proof (cases "prefix old (c # cs)")
    case True
    let ?rest = "drop (length old - 1) cs"
    have eq: "py_replace old new (c # cs) = new @ py_replace old new ?rest"
      using True "2.prems"(1) by simp
    show ?thesis
    proof (cases "?rest = []")
      case True
      then have "py_replace old new ?rest = []"
        using "2.prems"(1) by simp
      with eq show ?thesis by simp
    next
      case False
      then have ne: "py_replace old new ?rest \<noteq> []"
        using "2.prems"(1,2) by (simp add: py_replace_Nil_iff)
      from False have "length old - 1 < length cs" by simp
      then have "last ?rest = last (c # cs)"
        using False by (auto simp: last_drop)
      moreover have "last (py_replace old new ?rest) = last ?rest
          \<or> last (py_replace old new ?rest) = last new"
        using "2.IH"(2) [OF "2.prems"(1) True "2.prems"(1,2) False] .
      ultimately show ?thesis
        using eq ne by auto
    qed
  next
    case False
    have eq: "py_replace old new (c # cs) = c # py_replace old new cs"
      using False "2.prems"(1) by simp
    show ?thesis
    proof (cases "cs = []")
      case True
      with eq "2.prems"(1) show ?thesis by simp
    next
      case ne: False
      then have "py_replace old new cs \<noteq> []"
        using "2.prems"(1,2) by (simp add: py_replace_Nil_iff)
      moreover have "last (py_replace old new cs) = last cs
          \<or> last (py_replace old new cs) = last new"
        using "2.IH"(3) [OF "2.prems"(1) False "2.prems"(1,2) ne] .
      ultimately show ?thesis
        using eq ne by auto
    qed
  qed
qed

lemma py_replace_trimmed:
  assumes "old \<noteq> []" "new \<noteq> []" "\<not> isspace (hd new)" "\<not> isspace (last new)" "trimmed s"
  shows "trimmed (py_replace old new s)"
proof (cases "s = []")
  case True
  with assms(1) show ?thesis by (simp add: trimmed_def)
next
  case False
  with assms(5) have "\<not> isspace (hd s)" "\<not> isspace (last s)"
    by (simp_all add: trimmed_def)
  with hd_py_replace [OF assms(1,2) False] last_py_replace [OF assms(1,2) False] assms(3,4)
  show ?thesis
    by (auto simp: trimmed_def)
qed

lemma add_county_trimmed: "trimmed s \<Longrightarrow> trimmed (add_county c s)"
  by (simp add: add_county_def py_replace_trimmed isspace_def)

lemma format_address_trimmed: "trimmed (format_address a c)"
  by (simp add: format_address_def add_county_trimmed add_state_trimmed
      foldl_add_suite_comma_trimmed py_strip_trimmed) (simp add: trimmed_def)

lemma py_replace_has_new:
  "old \<noteq> [] \<Longrightarrow> sublist old s \<Longrightarrow> sublist new (py_replace old new s)"
proof (induction s)
  case Nil
  then show ?case by simp
next
  case (Cons c cs)
  show ?case
  proof (cases "prefix old (c # cs)")
    case True
    with Cons.prems(1) show ?thesis by simp
  next
    case False
    with Cons.prems have "sublist old cs"
      by (simp add: sublist_Cons_right)
    with Cons.IH Cons.prems(1) have "sublist new (py_replace old new cs)"
      by simp
    then have "sublist new (c # py_replace old new cs)"
      by (simp add: sublist_Cons_right)
    with False Cons.prems(1) show ?thesis by simp
  qed
qed

lemma upper_KY: "upper ''KY'' = ''KY''"
  by (simp add: upper_def upper_char_def islower_ascii_def)

lemma sublist_upper: "sublist p s \<Longrightarrow> sublist (upper p) (upper s)"
  unfolding upper_def by (rule map_mono_sublist)

lemma add_state_has_KY: "sublist ''KY'' (upper (add_state s))"
proof (cases "add_state s = s")
  case True
  then have "sublist ''KY'' (upper s) \<or> sublist ''KENTUCKY'' (upper s)"
    by (auto simp: add_state_def occurs_in_sublist split: if_splits)
  moreover have "sublist ''KY'' ''KENTUCKY''"
    by (simp add: sublist_code prefix_code)
  ultimately show ?thesis
    using True by (auto intro: sublist_order.order_trans)
next
  case False
  then have "add_state s = s @ '', KY''"
    by (simp add: add_state_def split: if_splits)
  moreover have "sublist ''KY'' (s @ '', KY'')"
    by (rule suffix_imp_sublist) (simp add: suffix_def)
  ultimately show ?thesis
    using sublist_upper [of "''KY''" "s @ '', KY''"] by (simp add: upper_KY)
qed

lemma add_county_has_KY:
  assumes "sublist ''KY'' (upper s)"
  shows "sublist ''KY'' (upper (add_county c s))"
proof (cases "add_county c s = s")
  case True
  with assms show ?thesis by simp
next
  case False
  let ?new = "'', '' @ c @ '' County, KY''"
  from False have eq: "add_county c s = py_replace '', KY'' ?new s" and occ: "sublist '', KY'' s"
    by (auto simp: add_county_def occurs_in_sublist split: if_splits)
  from occ have "sublist ?new (add_county c s)"
    unfolding eq by (intro py_replace_has_new) simp_all
  moreover have "sublist ''KY'' ?new"
    by (rule suffix_imp_sublist) (simp add: suffix_def)
  ultimately have "sublist ''KY'' (add_county c s)"
    by (rule sublist_order.order_trans [rotated])
  from sublist_upper [OF this] show ?thesis
    by (simp add: upper_KY)
qed

lemma format_address_has_KY:
  "a \<noteq> [] \<Longrightarrow> occurs_in ''KY'' (upper (format_address a c))"
  by (simp add: format_address_def occurs_in_sublist add_county_has_KY add_state_has_KY)

lemma foldl_unchanged:
  "list_all (\<lambda>x. f s x = s) xs \<Longrightarrow> foldl f s xs = s"
  by (induction xs) simp_all


lemma py_find_occurs: "occurs_in p s \<Longrightarrow> 0 \<le> py_find p s"
  by (induction s) (auto simp: Let_def)

lemma py_find_0: "py_find p s = 0 \<longleftrightarrow> prefix p s"
  by (cases s) (auto simp: Let_def)

lemma occurs_behind_comma:
  assumes "0 < n" "n \<le> length s" "s ! (n - 1) = CHR '',''" "prefix p (drop n s)"
  shows "occurs_in (CHR '','' # p) s"
proof -
  from assms(1,2) have "drop (n - 1) s = s ! (n - 1) # drop n s"
    using Cons_nth_drop_Suc [of "n - 1" s] by simp
  with assms(3,4) have "prefix (CHR '','' # p) (drop (n - 1) s)"
    by simp
  then obtain rest where "drop (n - 1) s = (CHR '','' # p) @ rest"
    by (auto simp: prefix_def)
  then have "s = take (n - 1) s @ (CHR '','' # p) @ rest"
    by (metis append_take_drop_id)
  then have "sublist (CHR '','' # p) s"
    by (metis sublist_appendI)
  then show ?thesis
    by (simp add: occurs_in_sublist)
qed

text \<open>The two ways the loop body changes the string, for a pattern of the list.\<close>

lemma add_suite_comma_change:
  assumes "p \<noteq> []" "add_suite_comma s (p, '', '' @ p) \<noteq> s"
  shows "\<exists>n. 0 < n \<and> n < length s \<and> prefix p (drop n s)
           \<and> (add_suite_comma s (p, '', '' @ p) = take n s @ '', '' @ drop n s
              \<or> s ! (n - 1) = CHR '' ''
                \<and> add_suite_comma s (p, '', '' @ p) = take (n - 1) s @ '', '' @ drop n s)"
proof -
  define pos where "pos = py_find p s"
  from assms(2) have pos: "0 < pos"
    by (auto simp: add_suite_comma_def Let_def pos_def split: if_splits)
  then have "0 \<le> py_find p s" by (simp add: pos_def)
  from py_find_prefix [OF this]
  have le: "nat pos \<le> length s" and pre: "prefix p (drop (nat pos) s)"
    by (simp_all add: pos_def)
  from pre obtain rest where rest: "drop (nat pos) s = p @ rest"
    by (auto simp: prefix_def)
  have "drop (length p) (drop (nat pos) s) = rest"
    by (simp add: rest)
  then have rest_eq: "drop (nat pos + length p) s = rest"
    by (simp add: add.commute)
  have lt: "nat pos < length s"
    using rest assms(1) le by (cases "nat pos = length s") auto
  have n: "0 < nat pos" using pos by simp
  have m: "nat (pos - 1) = nat pos - 1" by simp
  have "add_suite_comma s (p, '', '' @ p)
          = take (nat pos) s @ ('', '' @ p) @ drop (nat pos + length p) s
      \<or> s ! nat (pos - 1) = CHR '' ''
        \<and> add_suite_comma s (p, '', '' @ p)
          = take (nat (pos - 1)) s @ ('', '' @ p) @ drop (nat pos + length p) s"
    using assms(2) by (auto simp: add_suite_comma_def Let_def pos_def split: if_splits)
  then have "add_suite_comma s (p, '', '' @ p) = take (nat pos) s @ '', '' @ drop (nat pos) s
      \<or> s ! (nat pos - 1) = CHR '' ''
        \<and> add_suite_comma s (p, '', '' @ p) = take (nat pos - 1) s @ '', '' @ drop (nat pos) s"
    by (simp add: rest rest_eq m)
  with n lt pre show ?thesis
    by blast
qed

lemma add_suite_comma_longer:
  assumes "p \<noteq> []" "add_suite_comma s (p, '', '' @ p) \<noteq> s"
  shows "length s < length (add_suite_comma s (p, '', '' @ p))"
proof -
  from add_suite_comma_change [OF assms] obtain n where "0 < n" "n < length s"
    and "add_suite_comma s (p, '', '' @ p) = take n s @ '', '' @ drop n s
         \<or> add_suite_comma s (p, '', '' @ p) = take (n - 1) s @ '', '' @ drop n s"
    by blast
  then show ?thesis
    by auto
qed

lemma add_suite_comma_length:
  "p \<noteq> [] \<Longrightarrow> length s \<le> length (add_suite_comma s (p, '', '' @ p))"
  using add_suite_comma_longer [of p s] by (cases "add_suite_comma s (p, '', '' @ p) = s") auto

lemma add_suite_comma_idle_iff:
  assumes "p \<noteq> []"
  shows "add_suite_comma s (p, '', '' @ p) = s \<longleftrightarrow>
           \<not> occurs_in p s \<or> occurs_in ('', '' @ p) s \<or> occurs_in ('','' @ p) s \<or> prefix p s"
proof
  assume same: "add_suite_comma s (p, '', '' @ p) = s"
  show "\<not> occurs_in p s \<or> occurs_in ('', '' @ p) s \<or> occurs_in ('','' @ p) s \<or> prefix p s"
  proof (rule ccontr)
    assume "\<not> ?thesis"
    then have occ: "occurs_in p s" and g1: "\<not> occurs_in ('', '' @ p) s"
      and g2: "\<not> occurs_in ('','' @ p) s" and np: "\<not> prefix p s"
      by simp_all
    define pos where "pos = py_find p s"
    from occ have "0 \<le> pos" unfolding pos_def by (rule py_find_occurs)
    moreover from np have "pos \<noteq> 0" by (simp add: pos_def py_find_0)
    ultimately have pos: "0 < pos" by simp
    from py_find_prefix [of p s] pos
    have le: "nat pos \<le> length s" and pre: "prefix p (drop (nat pos) s)"
      by (simp_all add: pos_def)
    have comma: "s ! (nat pos - 1) \<noteq> CHR '',''"
    proof
      assume "s ! (nat pos - 1) = CHR '',''"
      with pos le pre have "occurs_in (CHR '','' # p) s"
        by (intro occurs_behind_comma [of "nat pos"]) simp_all
      with g2 show False by simp
    qed
    have m: "nat (pos - 1) = nat pos - 1" by simp
    let ?a = "take (nat pos - 1) s @ ('', '' @ p) @ drop (nat pos + length p) s"
    let ?b = "take (nat pos) s @ ('', '' @ p) @ drop (nat pos + length p) s"
    have step: "add_suite_comma s (p, '', '' @ p) = (if s ! (nat pos - 1) = CHR '' '' then ?a else ?b)"
      using occ g1 g2 pos comma by (simp add: add_suite_comma_def Let_def pos_def [symmetric] m)
    from pre obtain rest where "drop (nat pos) s = p @ rest"
      by (auto simp: prefix_def)
    then have "length (drop (nat pos) s) = length p + length rest"
      by simp
    then have "length s - nat pos = length p + length rest"
      by simp
    moreover have "0 < length p"
      using assms by simp
    ultimately have "nat pos + length p \<le> length s"
      by arith
    then have la: "length s < length ?a" and lb: "length s < length ?b"
      using pos by auto
    show False
    proof (cases "s ! (nat pos - 1) = CHR '' ''")
      case True
      with step same have "?a = s" by simp
      then have "length ?a = length s" by (rule arg_cong)
      with la show False by linarith
    next
      case False
      with step same have "?b = s" by simp
      then have "length ?b = length s" by (rule arg_cong)
      with lb show False by linarith
    qed
  qed
next
  assume "\<not> occurs_in p s \<or> occurs_in ('', '' @ p) s \<or> occurs_in ('','' @ p) s \<or> prefix p s"
  then show "add_suite_comma s (p, '', '' @ p) = s"
    by (auto simp: add_suite_comma_def Let_def py_find_0 [symmetric])
qed

lemma suite_patterns_shape:
  "pr \<in> set suite_patterns \<Longrightarrow> fst pr \<noteq> [] \<and> pr = (fst pr, '', '' @ fst pr)"
  by (auto simp: suite_patterns_def)

lemma suite_settled_iff:
  "suite_settled s \<longleftrightarrow> list_all (\<lambda>pr. add_suite_comma s pr = s) suite_patterns"
proof -
  have "add_suite_comma s pr = s \<longleftrightarrow>
      \<not> occurs_in (fst pr) s \<or> occurs_in ('', '' @ fst pr) s \<or> occurs_in ('','' @ fst pr) s
      \<or> prefix (fst pr) s" if "pr \<in> set suite_patterns" for pr
    using suite_patterns_shape [OF that] add_suite_comma_idle_iff [of "fst pr" s]
    by metis
  then show ?thesis
    by (simp add: suite_settled_def list_all_iff)
qed

lemma foldl_add_suite_comma_length:
  "set ps \<subseteq> set suite_patterns \<Longrightarrow> length s \<le> length (foldl add_suite_comma s ps)"
proof (induction ps arbitrary: s)
  case Nil
  show ?case by simp
next
  case (Cons pr ps)
  then have "pr \<in> set suite_patterns" by simp
  from suite_patterns_shape [OF this]
  have "length s \<le> length (add_suite_comma s pr)"
    using add_suite_comma_length [of "fst pr" s] by metis
  moreover have "length (add_suite_comma s pr) \<le> length (foldl add_suite_comma (add_suite_comma s pr) ps)"
    using Cons.prems by (intro Cons.IH) simp
  ultimately show ?case by simp
qed

lemma foldl_add_suite_comma_longer:
  "set ps \<subseteq> set suite_patterns \<Longrightarrow> \<not> list_all (\<lambda>pr. add_suite_comma s pr = s) ps \<Longrightarrow>
     length s < length (foldl add_suite_comma s ps)"
proof (induction ps)
  case Nil
  then show ?case by simp
next
  case (Cons pr ps)
  then have mem: "pr \<in> set suite_patterns" and sub: "set ps \<subseteq> set suite_patterns"
    by simp_all
  show ?case
  proof (cases "add_suite_comma s pr = s")
    case True
    with Cons.prems(2) have "\<not> list_all (\<lambda>pr. add_suite_comma s pr = s) ps"
      by simp
    from Cons.IH [OF sub this] True show ?thesis by simp
  next
    case False
    with suite_patterns_shape [OF mem] add_suite_comma_longer [of "fst pr" s]
    have "length s < length (add_suite_comma s pr)"
      by metis
    moreover have "length (add_suite_comma s pr) \<le> length (foldl add_suite_comma (add_suite_comma s pr) ps)"
      using sub by (rule foldl_add_suite_comma_length)
    ultimately show ?thesis by simp
  qed
qed

lemma suite_rule_fixed_iff:
  "foldl add_suite_comma s suite_patterns = s \<longleftrightarrow> suite_settled s"
proof
  assume "foldl add_suite_comma s suite_patterns = s"
  then have "\<not> length s < length (foldl add_suite_comma s suite_patterns)"
    by simp
  then show "suite_settled s"
    unfolding suite_settled_iff using foldl_add_suite_comma_longer [of suite_patterns s] by blast
next
  assume "suite_settled s"
  then show "foldl add_suite_comma s suite_patterns = s"
    unfolding suite_settled_iff by (rule foldl_unchanged)
qed

lemma length_py_replace:
  "old \<noteq> [] \<Longrightarrow> length old \<le> length new \<Longrightarrow> length s \<le> length (py_replace old new s)"
proof (induction old new s rule: py_replace.induct)
  case (1 old new)
  then show ?case by simp
next
  case (2 old new c cs)
  show ?case
  proof (cases "prefix old (c # cs)")
    case True
    then have "length old \<le> Suc (length cs)"
      by (auto dest: prefix_length_le)
    moreover have "0 < length old"
      using "2.prems"(1) by simp
    ultimately have "length cs - (length old - 1) + length old = Suc (length cs)"
      by arith
    then have "length (drop (length old - 1) cs) + length old = Suc (length cs)"
      by simp
    moreover have "length (drop (length old - 1) cs)
        \<le> length (py_replace old new (drop (length old - 1) cs))"
      using "2.IH"(2) [OF "2.prems"(1) True "2.prems"] .
    moreover have "length (py_replace old new (c # cs))
        = length new + length (py_replace old new (drop (length old - 1) cs))"
      using True "2.prems"(1) by simp
    ultimately show ?thesis
      using "2.prems"(2) by (simp del: py_replace.simps)
  next
    case False
    with "2.IH"(3) [OF "2.prems"(1) False "2.prems"] "2.prems"(1) show ?thesis
      by simp
  qed
qed

lemma length_py_replace_less:
  "old \<noteq> [] \<Longrightarrow> length old < length new \<Longrightarrow> sublist old s \<Longrightarrow>
     length s < length (py_replace old new s)"
proof (induction s)
  case Nil
  then show ?case by simp
next
  case (Cons c cs)
  show ?case
  proof (cases "prefix old (c # cs)")
    case True
    then have "length old \<le> Suc (length cs)"
      by (auto dest: prefix_length_le)
    moreover have "0 < length old"
      using Cons.prems(1) by simp
    ultimately have "length cs - (length old - 1) + length old = Suc (length cs)"
      by arith
    then have "length (drop (length old - 1) cs) + length old = Suc (length cs)"
      by simp
    moreover have "length (drop (length old - 1) cs)
        \<le> length (py_replace old new (drop (length old - 1) cs))"
      using Cons.prems(1,2) by (intro length_py_replace) simp_all
    moreover have "length (py_replace old new (c # cs))
        = length new + length (py_replace old new (drop (length old - 1) cs))"
      using True Cons.prems(1) by simp
    ultimately show ?thesis
      using Cons.prems(2) by (simp del: py_replace.simps)
  next
    case False
    with Cons.prems(3) have "sublist old cs"
      by (simp add: sublist_Cons_right)
    from Cons.IH [OF Cons.prems(1,2) this] False Cons.prems(1) show ?thesis
      by simp
  qed
qed

lemma add_state_length: "length s \<le> length (add_state s)"
  by (simp add: add_state_def)

lemma add_county_length: "length s \<le> length (add_county c s)"
  by (simp add: add_county_def length_py_replace)

lemma add_county_fixed_iff: "add_county c s = s \<longleftrightarrow> county_settled c s"
proof
  assume same: "add_county c s = s"
  show "county_settled c s"
  proof (rule ccontr)
    assume "\<not> county_settled c s"
    then have "add_county c s = py_replace '', KY'' ('', '' @ c @ '' County, KY'') s"
      and "sublist '', KY'' s"
      by (simp_all add: county_settled_def add_county_def occurs_in_sublist)
    then have "length s < length (add_county c s)"
      by (simp add: length_py_replace_less)
    with same show False by simp
  qed
next
  assume "county_settled c s"
  then show "add_county c s = s"
    by (auto simp: county_settled_def add_county_def)
qed

lemma sublist_pair_insert:
  assumes "sublist [k, y] (xs @ ys)" "ys = [] \<or> hd ys \<noteq> y"
  shows "sublist [k, y] (xs @ m @ ys)"
  using assms(1)
proof (induction xs)
  case Nil
  then have a: "sublist [k, y] ys" by simp
  have b: "sublist ys (m @ ys)" by simp
  from sublist_order.order_trans [OF a b] show ?case
    by simp
next
  case (Cons x xs)
  from Cons.prems have "prefix [k, y] (x # xs @ ys) \<or> sublist [k, y] (xs @ ys)"
    by (simp add: sublist_Cons_right)
  then show ?case
  proof
    assume pre: "prefix [k, y] (x # xs @ ys)"
    show ?thesis
    proof (cases xs)
      case Nil
      with pre assms(2) show ?thesis by (cases ys) auto
    next
      case (Cons x' xs')
      with pre have "prefix [k, y] ((x # xs) @ m @ ys)" by simp
      then show ?thesis by (intro prefix_imp_sublist) simp
    qed
  next
    assume "sublist [k, y] (xs @ ys)"
    then have "sublist [k, y] (xs @ m @ ys)" by (rule Cons.IH)
    then show ?thesis by (simp add: sublist_Cons_right)
  qed
qed

lemma sublist_KY_insert:
  assumes "sublist ''KY'' (xs @ ys)" "ys = [] \<or> hd ys \<noteq> CHR ''Y''"
  shows "sublist ''KY'' (xs @ m @ ys)"
  using assms by (rule sublist_pair_insert)

lemma upper_char_Y: "upper_char c = CHR ''Y'' \<longleftrightarrow> c = CHR ''Y'' \<or> c = CHR ''y''"
proof -
  have "c = CHR ''y''" if "islower_ascii c" "char_of (of_char c - (32::nat)) = CHR ''Y''"
  proof -
    from that(1) have b: "97 \<le> (of_char c :: nat)" "(of_char c :: nat) \<le> 122"
      by (simp_all add: islower_ascii_def Let_def)
    from that(2) have "(of_char (char_of (of_char c - (32::nat)) :: char) :: nat) = of_char CHR ''Y''"
      by simp
    with b have "(of_char c :: nat) - 32 = 89"
      by (simp add: of_char_of)
    with b have "(of_char c :: nat) = of_char CHR ''y''"
      by simp
    then show ?thesis
      by (simp only: of_char_eq_iff)
  qed
  moreover have "char_of (89::nat) = CHR ''Y''"
    by code_simp
  ultimately show ?thesis
    by (auto simp: upper_char_def islower_ascii_def Let_def)
qed

lemma upper_append: "upper (xs @ ys) = upper xs @ upper ys"
  by (simp add: upper_def)

lemma add_suite_comma_keeps_KY:
  assumes "pr \<in> set suite_patterns" "sublist ''KY'' (upper s)"
  shows "sublist ''KY'' (upper (add_suite_comma s pr))"
proof (cases "add_suite_comma s pr = s")
  case True
  with assms(2) show ?thesis by simp
next
  case False
  from suite_patterns_shape [OF assms(1)] obtain p
    where p: "p \<noteq> []" and pr: "pr = (p, '', '' @ p)"
    by blast
  from False have ne: "add_suite_comma s (p, '', '' @ p) \<noteq> s"
    by (simp add: pr)
  have hdp: "upper_char (hd p) \<noteq> CHR ''Y''"
    using assms(1) unfolding pr by (auto simp: suite_patterns_def upper_char_Y)
  from add_suite_comma_change [OF p ne] obtain n where n: "0 < n" "n < length s"
    and pre: "prefix p (drop n s)"
    and res: "add_suite_comma s (p, '', '' @ p) = take n s @ '', '' @ drop n s
         \<or> s ! (n - 1) = CHR '' ''
           \<and> add_suite_comma s (p, '', '' @ p) = take (n - 1) s @ '', '' @ drop n s"
    by blast
  from pre p obtain rest where "drop n s = hd p # rest"
    by (cases p) (auto simp: prefix_def)
  with hdp have tail: "upper (drop n s) = [] \<or> hd (upper (drop n s)) \<noteq> CHR ''Y''"
    by (simp add: upper_def)
  from res show ?thesis
  proof
    assume r: "add_suite_comma s (p, '', '' @ p) = take n s @ '', '' @ drop n s"
    have "upper s = upper (take n s) @ upper (drop n s)"
      by (simp flip: upper_append)
    with assms(2) have "sublist ''KY'' (upper (take n s) @ upper (drop n s))"
      by simp
    from sublist_KY_insert [OF this tail, of "upper '', ''"] show ?thesis
      unfolding pr r by (simp add: upper_def)
  next
    assume "s ! (n - 1) = CHR '' ''
           \<and> add_suite_comma s (p, '', '' @ p) = take (n - 1) s @ '', '' @ drop n s"
    then have sp: "s ! (n - 1) = CHR '' ''"
      and r: "add_suite_comma s (p, '', '' @ p) = take (n - 1) s @ '', '' @ drop n s"
      by simp_all
    have "s = take (n - 1) s @ s ! (n - 1) # drop (Suc (n - 1)) s"
      using n by (intro id_take_nth_drop) simp
    with n sp have "s = (take (n - 1) s @ '' '') @ drop n s"
      by simp
    then have "upper s = upper (take (n - 1) s @ '' '') @ upper (drop n s)"
      by (metis upper_append)
    with assms(2) have "sublist ''KY'' (upper (take (n - 1) s @ '' '') @ upper (drop n s))"
      by simp
    from sublist_KY_insert [OF this tail, of "upper '', ''"]
    have "sublist ''KY'' (upper (take (n - 1) s) @ upper '' '' @ upper '', '' @ upper (drop n s))"
      by (simp add: upper_append)
    moreover have "sublist ''KY'' (xs @ '', '' @ ys)"
      if "sublist ''KY'' (xs @ '' '' @ '', '' @ ys)" for xs ys
    proof -
      have "sublist ''KY'' (xs @ ('' '' @ '', '' @ ys))" using that by simp
      then have "sublist ''KY'' xs \<or> sublist ''KY'' ('', '' @ ys)
          \<or> (xs \<noteq> [] \<and> last xs = CHR ''K'' \<and> False)"
        by (auto simp: sublist_append sublist_Cons_right prefix_Cons suffix_def
            append_eq_Cons_conv Cons_eq_append_conv)
      then show ?thesis
        by (auto simp: sublist_append)
    qed
    ultimately have "sublist ''KY'' (upper (take (n - 1) s) @ '', '' @ upper (drop n s))"
      by (simp add: upper_def upper_char_def islower_ascii_def)
    then show ?thesis
      unfolding pr r by (simp add: upper_def upper_char_def islower_ascii_def)
  qed
qed

lemma foldl_add_suite_comma_keeps_KY:
  "set ps \<subseteq> set suite_patterns \<Longrightarrow> sublist ''KY'' (upper s) \<Longrightarrow>
     sublist ''KY'' (upper (foldl add_suite_comma s ps))"
proof (induction ps arbitrary: s)
  case Nil
  then show ?case by simp
next
  case (Cons pr ps)
  then have "sublist ''KY'' (upper (add_suite_comma s pr))"
    by (intro add_suite_comma_keeps_KY) simp_all
  with Cons.prems(1) Cons.IH [of "add_suite_comma s pr"] show ?case
    by simp
qed

text \<open>
  C5 (the claim as written fails): the normalizer is not idempotent. The county rule has
  no test for a county that is already there: a normalized address that has \<open>", KY"\<close>
  and no digit among its last 10 characters gets the county again on a second pass. The
  suite rule can fire again too: when the comma put before \<open>#\<close> takes the space that
  guarded an earlier \<open>Suite\<close>, a later unguarded \<open>Suite\<close> is treated on the second pass.
\<close>

theorem format_address_twice_counterexample:
  "format_address ''101 Main St, Lexington'' ''Fayette''
     = ''101 Main St, Lexington, Fayette County, KY''
   \<and> format_address (format_address ''101 Main St, Lexington'' ''Fayette'') ''Fayette''
     = ''101 Main St, Lexington, Fayette County, Fayette County, KY''
   \<and> format_address ''A Suite #5 Suite 6'' [] = ''A, Suite, #5 Suite 6, KY''
   \<and> format_address (format_address ''A Suite #5 Suite 6'' []) []
     = ''A, Suite, #5, Suite 6, KY''"
  by code_simp

text \<open>
  C5 (amended): a second pass never trims the normalized address and, for a non-empty raw
  address, never appends a second \<open>", KY"\<close> (what the suite rule makes of the normalized
  address still mentions KY). The second pass returns the normalized address unchanged
  exactly when both of these hold of it: every suite pattern is absent from it, or occurs
  in it behind a comma, or stands at its very start; and no county is given, or one of
  its last 10 characters is a digit, or it has no \<open>", KY"\<close>.
\<close>

theorem format_address_second_pass:
  "py_strip (format_address a c) = format_address a c
   \<and> (a \<noteq> [] \<longrightarrow>
        add_state (foldl add_suite_comma (py_strip (format_address a c)) suite_patterns)
          = foldl add_suite_comma (py_strip (format_address a c)) suite_patterns)
   \<and> (format_address (format_address a c) c = format_address a c
        \<longleftrightarrow> suite_settled (format_address a c) \<and> county_settled c (format_address a c))"
proof -
  let ?r = "format_address a c"
  let ?S = "foldl add_suite_comma ?r suite_patterns"
  have strip: "py_strip ?r = ?r"
    using format_address_trimmed by (rule py_strip_id)
  have state: "add_state ?S = ?S" if "a \<noteq> []"
  proof -
    from format_address_has_KY [OF that] have "sublist ''KY'' (upper ?r)"
      by (simp add: occurs_in_sublist)
    then have "sublist ''KY'' (upper ?S)"
      by (intro foldl_add_suite_comma_keeps_KY) simp_all
    then show ?thesis
      by (simp add: add_state_def occurs_in_sublist)
  qed
  have fixed: "format_address ?r c = ?r \<longleftrightarrow> suite_settled ?r \<and> county_settled c ?r"
  proof (cases "a = []")
    case True
    then show ?thesis
      by (simp add: format_address_def suite_settled_def county_settled_def suite_patterns_def)
  next
    case False
    have "?r \<noteq> []"
    proof
      assume "?r = []"
      with format_address_has_KY [OF False, of c] show False
        by (simp add: upper_def)
    qed
    then have second: "format_address ?r c = add_county c ?S"
      using strip state [OF False] by (simp add: format_address_def [of ?r])
    show ?thesis
    proof
      assume same: "format_address ?r c = ?r"
      have "length ?S \<le> length (add_county c ?S)"
        by (rule add_county_length)
      with same second have "\<not> length ?r < length ?S"
        by simp
      then have settled: "suite_settled ?r"
        unfolding suite_settled_iff using foldl_add_suite_comma_longer [of suite_patterns ?r]
        by blast
      then have "?S = ?r"
        by (simp add: suite_rule_fixed_iff)
      with same second have "add_county c ?r = ?r"
        by simp
      with settled show "suite_settled ?r \<and> county_settled c ?r"
        by (simp add: add_county_fixed_iff)
    next
      assume "suite_settled ?r \<and> county_settled c ?r"
      then have "?S = ?r" and "add_county c ?r = ?r"
        by (simp_all add: suite_rule_fixed_iff add_county_fixed_iff)
      with second show "format_address ?r c = ?r"
        by simp
    qed
  qed
  from strip state fixed show ?thesis
    by (simp add: strip)
qed

theorem format_address_second_pass_witness:
  "format_address ''2100 Buena Vista Rd Suite 1 Lexington KY 40505'' ''Fayette''
     = ''2100 Buena Vista Rd, Suite 1 Lexington KY 40505''
   \<and> suite_settled ''2100 Buena Vista Rd, Suite 1 Lexington KY 40505''
   \<and> county_settled ''Fayette'' ''2100 Buena Vista Rd, Suite 1 Lexington KY 40505''
   \<and> format_address ''2100 Buena Vista Rd, Suite 1 Lexington KY 40505'' ''Fayette''
     = ''2100 Buena Vista Rd, Suite 1 Lexington KY 40505''
   \<and> format_address ''#5 Main St'' [] = ''#5 Main St, KY''
   \<and> format_address ''#5 Main St, KY'' [] = ''#5 Main St, KY''
   \<and> format_address ''101 Main St, Lexington, Kentucky'' ''Fayette''
     = ''101 Main St, Lexington, Kentucky''
   \<and> format_address ''101 Main St, Lexington'' ''Fayette''
     = ''101 Main St, Lexington, Fayette County, KY''
   \<and> \<not> county_settled ''Fayette'' ''101 Main St, Lexington, Fayette County, KY''
   \<and> format_address ''101 Main St, Lexington, Fayette County, KY'' ''Fayette''
     \<noteq> ''101 Main St, Lexington, Fayette County, KY''"
proof -
  let ?a = "''2100 Buena Vista Rd Suite 1 Lexington KY 40505''"
  let ?r = "''2100 Buena Vista Rd, Suite 1 Lexington KY 40505''"
  have r: "format_address ?a ''Fayette'' = ?r"
    and g: "suite_settled ?r"
    and z: "county_settled ''Fayette'' ?r"
    by code_simp+
  from format_address_second_pass [of ?a "''Fayette''"] r g z
  have one: "format_address ?r ''Fayette'' = ?r"
    by simp
  have h: "format_address ''#5 Main St'' [] = ''#5 Main St, KY''"
    and hs: "suite_settled ''#5 Main St, KY''"
    and hc: "county_settled [] ''#5 Main St, KY''"
    by code_simp+
  from format_address_second_pass [of "''#5 Main St''" "[]"] h hs hc
  have two: "format_address ''#5 Main St, KY'' [] = ''#5 Main St, KY''"
    by simp
  have k: "format_address ''101 Main St, Lexington, Kentucky'' ''Fayette''
     = ''101 Main St, Lexington, Kentucky''"
    by code_simp
  have m: "format_address ''101 Main St, Lexington'' ''Fayette''
     = ''101 Main St, Lexington, Fayette County, KY''"
    and mc: "\<not> county_settled ''Fayette'' ''101 Main St, Lexington, Fayette County, KY''"
    by code_simp+
  from format_address_second_pass [of "''101 Main St, Lexington''" "''Fayette''"] m mc
  have three: "format_address ''101 Main St, Lexington, Fayette County, KY'' ''Fayette''
     \<noteq> ''101 Main St, Lexington, Fayette County, KY''"
    by simp
  from r g z one h two k m mc three show ?thesis
    by blast
qed

end
